theory Spec2Isabelle
  imports Main "HOL-Library.Sublist" "HOL-Library.AList"
begin

section \<open>Python strings\<close>

text \<open>
  A Python \<open>str\<close> is a sequence of code points. It is modelled as a \<open>string\<close>, one
  \<open>char\<close> for each code point, so the model covers the texts whose code points are at
  most U+00FF (ASCII and the accented letters of the Spanish messages). On that range
  the functions below are the built-in methods of \<open>str\<close>.
\<close>

definition NL :: char where
  "NL = CHR 0x0A"

text \<open>\<open>str.isspace\<close> for one character: the white space of Unicode up to U+00FF.\<close>

definition isspace :: "char \<Rightarrow> bool" where
  "isspace c = (of_char c \<in> {9, 10, 11, 12, 13, 28, 29, 30, 31, 32, 133, 160 :: nat})"

text \<open>\<open>str.lower\<close>: A-Z and the capital letters U+00C0..U+00DE (not U+00D7) move by 32.\<close>

definition lower_char :: "char \<Rightarrow> char" where
  "lower_char c =
     (let n = (of_char c :: nat)
      in if (65 \<le> n \<and> n \<le> 90) \<or> (192 \<le> n \<and> n \<le> 222 \<and> n \<noteq> 215)
         then char_of (n + 32) else c)"

definition str_lower :: "string \<Rightarrow> string" where
  "str_lower s = map lower_char s"

text \<open>\<open>str.strip()\<close> with no argument.\<close>

definition str_strip :: "string \<Rightarrow> string" where
  "str_strip s = rev (dropWhile isspace (rev (dropWhile isspace s)))"

text \<open>\<open>needle in haystack\<close> for two strings.\<close>

fun str_in :: "string \<Rightarrow> string \<Rightarrow> bool" where
  "str_in needle [] = (needle = [])"
| "str_in needle (c # cs) = (prefix needle (c # cs) \<or> str_in needle cs)"

definition startswith :: "string \<Rightarrow> string \<Rightarrow> bool" where
  "startswith s p = prefix p s"

text \<open>\<open>s.split(sep)\<close> for a separator of one character: never an empty list.\<close>

fun str_split :: "char \<Rightarrow> string \<Rightarrow> string list" where
  "str_split sep [] = [[]]"
| "str_split sep (c # cs) =
     (if c = sep then [] # str_split sep cs
      else (case str_split sep cs of
              [] \<Rightarrow> [[c]]
            | l # ls \<Rightarrow> (c # l) # ls))"

text \<open>\<open>s.split(sep, 1)\<close>: at most one cut, at the first separator.\<close>

fun str_split1 :: "char \<Rightarrow> string \<Rightarrow> string list" where
  "str_split1 sep s =
     (if sep \<in> set s
      then [takeWhile (\<lambda>c. c \<noteq> sep) s, tl (dropWhile (\<lambda>c. c \<noteq> sep) s)]
      else [s])"

datatype py_error = TypeError | KeyError | AttributeError | ValueError | IndexError

text \<open>
  \<open>int(s)\<close> for a string: white space around, an optional sign, decimal digits with
  single underscores between digits. (Up to U+00FF the decimal digits are 0-9.
  CPython refuses more than 4300 digits; callback data has at most 64 bytes.)
  The white space \<open>int\<close> skips is not that of \<open>str.strip()\<close>: the separators
  U+001C..U+001F around the digits make it raise \<open>ValueError\<close>.
\<close>

definition int_space :: "char \<Rightarrow> bool" where
  "int_space c = (of_char c \<in> {9, 10, 11, 12, 13, 32, 133, 160 :: nat})"

definition is_digit :: "char \<Rightarrow> bool" where
  "is_digit c = (48 \<le> (of_char c :: nat) \<and> (of_char c :: nat) \<le> 57)"

definition digit_val :: "char \<Rightarrow> int" where
  "digit_val c = int (of_char c) - 48"

fun int_digits :: "int \<Rightarrow> string \<Rightarrow> int option" where
  "int_digits acc [] = Some acc"
| "int_digits acc [c] = (if is_digit c then Some (10 * acc + digit_val c) else None)"
| "int_digits acc (c # d # cs) =
     (if is_digit c then int_digits (10 * acc + digit_val c) (d # cs)
      else if c = CHR ''_'' \<and> is_digit d then int_digits (10 * acc + digit_val d) cs
      else None)"

definition py_int :: "string \<Rightarrow> py_error + int" where
  "py_int s =
     (let t = rev (dropWhile int_space (rev (dropWhile int_space s)));
          neg = (t \<noteq> [] \<and> hd t = CHR ''-'');
          body = (if t \<noteq> [] \<and> (hd t = CHR ''-'' \<or> hd t = CHR ''+'') then tl t else t)
      in if body = [] \<or> \<not> is_digit (hd body) then Inl ValueError
         else (case int_digits 0 body of
                 None \<Rightarrow> Inl ValueError
               | Some n \<Rightarrow> Inr (if neg then - n else n)))"

section \<open>The pattern of a doubt\<close>

text \<open>
  \<open>re.search(r'(.+)\s+nivel\s*(f_cil|intermedio|avanzado)', text, re.IGNORECASE)\<close>,
  where \<open>_\<close> stands for U+00E1 (a with acute), as the backtracking matcher runs it:
  start positions from the left; at each one the
  greedy \<open>(.+)\<close>, \<open>\s+\<close> and \<open>\s*\<close> try their longest extent first and give
  characters back one at a time; the alternatives are tried in the order written. The
  result is the pair of groups of the first match found.
\<close>

fun first_some :: "('a \<Rightarrow> 'b option) \<Rightarrow> 'a list \<Rightarrow> 'b option" where
  "first_some f [] = None"
| "first_some f (x # xs) = (case f x of Some y \<Rightarrow> Some y | None \<Rightarrow> first_some f xs)"

text \<open>The extents a greedy repetition tries: from \<open>hi\<close> down to \<open>lo\<close>.\<close>

definition greedy :: "nat \<Rightarrow> nat \<Rightarrow> nat list" where
  "greedy lo hi = rev [lo ..< Suc hi]"

text \<open>A literal word (written in lower case) under \<open>re.IGNORECASE\<close>.\<close>

definition ci_prefix :: "string \<Rightarrow> string \<Rightarrow> bool" where
  "ci_prefix w s = (length w \<le> length s \<and> str_lower (take (length w) s) = w)"

definition facil :: string where
  "facil = ''f'' @ [CHR 0xE1] @ ''cil''"

definition difficulty_words :: "string list" where
  "difficulty_words = [facil, ''intermedio'', ''avanzado'']"

definition m_word :: "string \<Rightarrow> string option" where
  "m_word s = first_some (\<lambda>w. if ci_prefix w s then Some (take (length w) s) else None)
                difficulty_words"

definition m_ws_star :: "string \<Rightarrow> string option" where
  "m_ws_star s = first_some (\<lambda>k. m_word (drop k s)) (greedy 0 (length (takeWhile isspace s)))"

definition m_nivel :: "string \<Rightarrow> string option" where
  "m_nivel s = (if ci_prefix ''nivel'' s then m_ws_star (drop 5 s) else None)"

definition m_ws_plus :: "string \<Rightarrow> string option" where
  "m_ws_plus s = first_some (\<lambda>k. m_nivel (drop k s)) (greedy 1 (length (takeWhile isspace s)))"

definition m_dot_plus :: "string \<Rightarrow> (string \<times> string) option" where
  "m_dot_plus s =
     first_some (\<lambda>j. map_option (Pair (take j s)) (m_ws_plus (drop j s)))
       (greedy 1 (length (takeWhile (\<lambda>c. c \<noteq> NL) s)))"

definition re_search :: "string \<Rightarrow> (string \<times> string) option" where
  "re_search text = first_some (\<lambda>i. m_dot_plus (drop i text)) [0 ..< Suc (length text)]"

text \<open>
  The texts the pattern of a doubt is found in, written out: somewhere in the text
  there are one or more characters other than a newline (the group \<open>(.+)\<close>), then
  white space, the word "nivel" in any case, white space or none, and one of the three
  difficulty words in any case.
\<close>

definition matches_pattern :: "string \<Rightarrow> bool" where
  "matches_pattern s =
     (\<exists>pre g ws1 nv ws2 w post.
        s = pre @ g @ ws1 @ nv @ ws2 @ w @ post \<and>
        g \<noteq> [] \<and> list_all (\<lambda>c. c \<noteq> NL) g \<and>
        ws1 \<noteq> [] \<and> list_all isspace ws1 \<and>
        str_lower nv = ''nivel'' \<and>
        list_all isspace ws2 \<and>
        str_lower w \<in> set difficulty_words)"

section \<open>Decoded JSON and the AI gateway\<close>

text \<open>
  The values \<open>json.loads\<close> returns: \<open>None\<close>, booleans, integers, strings and objects
  (a \<open>dict\<close> in insertion order, its keys distinct). Arrays and fractional numbers are
  outside the model.
\<close>

datatype json = JNull | JBool bool | JInt int | JStr string | JObj "(string \<times> json) list"

text \<open>
  What lies outside \<open>src/\<close>: whether Firestore is connected (\<open>db\<close>), the API key,
  \<open>json.loads\<close> (\<open>None\<close> when it raises) and \<open>str()\<close> of a decoded value.
\<close>

record env =
  db :: bool
  gemini_api_key :: "string option"
  json_loads :: "string \<Rightarrow> json option"
  py_str :: "json \<Rightarrow> string"

text \<open>
  The HTTP exchange of one call, up to the walrus test of \<open>call_gemini_api\<close>:
  \<open>raise_for_status\<close> raised, or another exception was raised (transport, time-out, a
  body that is not JSON or has not the expected shape), or the chain of \<open>.get\<close> ended
  with a text or with \<open>None\<close>.
\<close>

datatype http_reply = HTTPStatusError | OtherException | TextContent "string option"

definition msg_not_configured :: string where
  "msg_not_configured =
     ''Error: La conexi'' @ [CHR 0xF3] @ ''n con la IA no est'' @ [CHR 0xE1] @ '' configurada.''"

definition msg_no_answer :: string where
  "msg_no_answer = ''Lo siento, no pude generar una respuesta en este momento.''"

definition msg_http :: string where
  "msg_http = ''Hubo un problema con la IA. Int'' @ [CHR 0xE9] @ ''ntalo de nuevo m''
     @ [CHR 0xE1] @ ''s tarde.''"

definition msg_connecting :: string where
  "msg_connecting = ''Hubo un problema conectando con la IA. Int'' @ [CHR 0xE9]
     @ ''ntalo de nuevo.''"

text \<open>The truth value of \<open>GEMINI_API_KEY\<close>.\<close>

definition configured :: "env \<Rightarrow> bool" where
  "configured e = (case gemini_api_key e of None \<Rightarrow> False | Some k \<Rightarrow> k \<noteq> [])"

definition call_gemini_api :: "env \<Rightarrow> bool \<Rightarrow> http_reply \<Rightarrow> json" where
  "call_gemini_api e is_structured reply =
     (if \<not> configured e then JStr msg_not_configured
      else (case reply of
              HTTPStatusError \<Rightarrow> JStr msg_http
            | OtherException \<Rightarrow> JStr msg_connecting
            | TextContent None \<Rightarrow> JStr msg_no_answer
            | TextContent (Some text_content) \<Rightarrow>
                (if text_content \<noteq> []
                 then (if is_structured
                       then (case json_loads e text_content of
                               Some v \<Rightarrow> v
                             | None \<Rightarrow> JStr msg_connecting)
                       else JStr text_content)
                 else JStr msg_no_answer)))"

section \<open>The conversation record and what a handler leaves behind\<close>

text \<open>
  The \<open>dict\<close> of a user: \<open>bot_state\<close>, \<open>last_asesoria_topic\<close> and
  \<open>current_exercise\<close> (\<open>None\<close>, or a \<open>dict\<close> that receives \<open>topic\<close>,
  \<open>difficulty\<close> and the keys of the generated exercise). The three keys are always
  there: \<open>get_user_state\<close> and \<open>start_command\<close> create the \<open>dict\<close> with them and
  no handler removes a key.
\<close>

record ustate =
  bot_state :: string
  last_asesoria_topic :: "string option"
  current_exercise :: "(string \<times> json) list option"

definition default_state :: ustate where
  "default_state = \<lparr>bot_state = ''idle'', last_asesoria_topic = None, current_exercise = None\<rparr>"

text \<open>
  The stored document of a user (\<open>None\<close>: no document, or an empty \<open>user_data\<close>)
  and what \<open>get_user_state\<close> reads from it.
\<close>

definition get_user_state :: "ustate option \<Rightarrow> ustate" where
  "get_user_state doc = (case doc of None \<Rightarrow> default_state | Some s \<Rightarrow> s)"

text \<open>
  The messages of the bot. \<open>Reply\<close> carries a text sent by \<open>send_long_message\<close>;
  every other constructor is one fixed or templated text of \<open>src/main.py\<close>, named
  by its line, with the values the template interpolates.
\<close>

datatype bot_msg =
    Reply string
  | Welcome                     \<comment> \<open>line 181\<close>
  | AskDoubt                    \<comment> \<open>line 187\<close>
  | AskExampleTopic             \<comment> \<open>line 193\<close>
  | ChooseTopic                 \<comment> \<open>line 200\<close>
  | AskNotebookQuestion         \<comment> \<open>line 206\<close>
  | SurveyLink                  \<comment> \<open>line 212\<close>
  | AnotherNotebookDoubt        \<comment> \<open>line 231\<close>
  | DeepenOffer                 \<comment> \<open>lines 244 and 254\<close>
  | FormatError                 \<comment> \<open>line 246: "Formato incorrecto. Ejemplo: ..."\<close>
  | ExampleDone                 \<comment> \<open>line 262\<close>
  | NextActionMenu              \<comment> \<open>line 277\<close>
  | ResolutionMenu              \<comment> \<open>line 281\<close>
  | RetryWithPrueba             \<comment> \<open>line 163: "No pude generar un ejercicio. Intentalo de nuevo con /prueba."\<close>
  | EditChooseDifficulty string \<comment> \<open>line 298\<close>
  | EditGenerating json int     \<comment> \<open>line 303\<close>
  | EditBackToMenu              \<comment> \<open>line 308\<close>
  | EditGeneratingAnother       \<comment> \<open>line 311\<close>
  | EditRetry                   \<comment> \<open>line 316\<close>
  | EditSolution json           \<comment> \<open>line 321\<close>
  | Apology                     \<comment> \<open>line 330, sent by \<open>error_handler\<close>\<close>

text \<open>The prompts of the gateway calls, one constructor for each template.\<close>

datatype prompt =
    NotebookPrompt string                           \<comment> \<open>line 227\<close>
  | DoubtPrompt string string                       \<comment> \<open>line 238\<close>
  | DeepenPrompt string "string option"             \<comment> \<open>line 249\<close>
  | ExamplePrompt string                            \<comment> \<open>line 257\<close>
  | VerifyPrompt "json option" "json option" string \<comment> \<open>lines 266-270\<close>
  | ExercisePrompt json json                        \<comment> \<open>line 155\<close>

text \<open>
  A handler, run on the \<open>dict\<close> it read: the \<open>dict\<close> as it is when the handler
  returns or raises, the exception if it raised, the messages sent and the gateway
  calls made (with \<open>is_structured\<close>). Calls to Telegram are taken to succeed; the
  typing indicator and the telemetry of \<open>save_interaction\<close>, which neither read nor
  write the \<open>dict\<close>, are left out.
\<close>

record hres =
  hstate :: ustate
  herr :: "py_error option"
  hsent :: "bot_msg list"
  hcalls :: "(prompt \<times> bool) list"

definition returns :: "ustate \<Rightarrow> bot_msg list \<Rightarrow> (prompt \<times> bool) list \<Rightarrow> hres" where
  "returns s ms cs = \<lparr>hstate = s, herr = None, hsent = ms, hcalls = cs\<rparr>"

definition raises :: "py_error \<Rightarrow> ustate \<Rightarrow> bot_msg list \<Rightarrow> (prompt \<times> bool) list \<Rightarrow> hres" where
  "raises x s ms cs = \<lparr>hstate = s, herr = Some x, hsent = ms, hcalls = cs\<rparr>"

section \<open>Message delivery\<close>

definition MAX_LENGTH :: nat where
  "MAX_LENGTH = 4096"

text \<open>The loop of \<open>send_long_message\<close> over the lines, and the append after it.\<close>

fun pack_lines :: "string list \<Rightarrow> string \<Rightarrow> string list \<Rightarrow> string list" where
  "pack_lines parts current_part [] = parts @ [current_part]"
| "pack_lines parts current_part (line # ls) =
     (if length current_part + length line + 1 > MAX_LENGTH
      then pack_lines (parts @ [current_part]) line ls
      else pack_lines parts (current_part @ NL # line) ls)"

text \<open>The texts \<open>send_long_message\<close> passes to \<open>reply_text\<close>, in order.\<close>

definition send_long_message :: "string \<Rightarrow> string list" where
  "send_long_message text =
     (if length text \<le> MAX_LENGTH then [text]
      else map str_strip
             (filter (\<lambda>part. str_strip part \<noteq> []) (pack_lines [] [] (str_split NL text))))"

section \<open>Exercise lifecycle\<close>

text \<open>The truth value of a decoded value, as \<open>if\<close> and \<open>and\<close> take it.\<close>

fun truthy :: "json \<Rightarrow> bool" where
  "truthy JNull = False"
| "truthy (JBool b) = b"
| "truthy (JInt n) = (n \<noteq> 0)"
| "truthy (JStr s) = (s \<noteq> [])"
| "truthy (JObj kvs) = (kvs \<noteq> [])"

text \<open>
  \<open>key in value\<close>: a key of a \<open>dict\<close>, a substring of a \<open>str\<close>; a \<open>TypeError\<close>
  for a value that is not iterable.
\<close>

fun py_in :: "string \<Rightarrow> json \<Rightarrow> py_error + bool" where
  "py_in k (JObj kvs) = Inr (map_of kvs k \<noteq> None)"
| "py_in k (JStr s) = Inr (str_in k s)"
| "py_in k v = Inl TypeError"

text \<open>
  \<open>d.update(value)\<close>: the pairs of a \<open>dict\<close> are stored in order; a \<open>str\<close> is
  iterated character by character, and the first character is not a pair
  (\<open>ValueError\<close>); the other values are not iterable (\<open>TypeError\<close>).
\<close>

fun dict_update :: "(string \<times> json) list \<Rightarrow> json \<Rightarrow> py_error + (string \<times> json) list" where
  "dict_update d (JObj kvs) = Inr (fold (\<lambda>(k, v). AList.update k v) kvs d)"
| "dict_update d (JStr s) = (if s = [] then Inr d else Inl ValueError)"
| "dict_update d v = Inl TypeError"

text \<open>A value interpolated into an f-string.\<close>

definition fmt :: "env \<Rightarrow> json \<Rightarrow> string" where
  "fmt e v = (case v of JStr s \<Rightarrow> s | _ \<Rightarrow> py_str e v)"

definition exercise_text :: "string \<Rightarrow> string" where
  "exercise_text problem =
     ''Aqu'' @ [CHR 0xED] @ '' tienes:'' @ [NL, NL] @ problem @ [NL, NL] @ ''Escribe tu respuesta.''"

text \<open>
  \<open>generate_exercise\<close>, up to its call of \<open>set_user_state\<close> (which the dispatcher
  below makes for every handler that returns).
\<close>

definition generate_exercise :: "env \<Rightarrow> http_reply \<Rightarrow> ustate \<Rightarrow> hres" where
  "generate_exercise e reply state =
     (case current_exercise state of
        None \<Rightarrow> raises TypeError state [] []
      | Some ex \<Rightarrow>
          (case map_of ex ''topic'' of
             None \<Rightarrow> raises KeyError state [] []
           | Some topic \<Rightarrow>
               (case map_of ex ''difficulty'' of
                  None \<Rightarrow> raises KeyError state [] []
                | Some difficulty \<Rightarrow>
                    (let exercise_data = call_gemini_api e True reply;
                         cs = [(ExercisePrompt topic difficulty, True)]
                     in case (if truthy exercise_data then py_in ''problem'' exercise_data
                              else Inr False) of
                          Inl x \<Rightarrow> raises x state [] cs
                        | Inr False \<Rightarrow>
                            returns (state\<lparr>bot_state := ''idle''\<rparr>) [RetryWithPrueba] cs
                        | Inr True \<Rightarrow>
                            (let state1 = state\<lparr>bot_state := ''waiting_for_exercise_answer''\<rparr>
                             in case dict_update ex exercise_data of
                                  Inl x \<Rightarrow> raises x state1 [] cs
                                | Inr ex' \<Rightarrow>
                                    (let state2 = state1\<lparr>current_exercise := Some ex'\<rparr>
                                     in case exercise_data of
                                          JObj kvs \<Rightarrow>
                                            (case map_of kvs ''problem'' of
                                               None \<Rightarrow> raises KeyError state2 [] cs
                                             | Some problem \<Rightarrow>
                                                 returns state2
                                                   (map Reply (send_long_message
                                                      (exercise_text (fmt e problem)))) cs)
                                        | _ \<Rightarrow> raises TypeError state2 [] cs))))))"

section \<open>The handlers\<close>

definition positive_keywords :: "string list" where
  "positive_keywords =
     [''correcto'', ''exacto'', ''perfecto'', ''muy bien'', ''excelente'', ''felicidades'']"

definition difficulty_map :: "(string \<times> string) list" where
  "difficulty_map =
     [(facil, ''b'' @ [CHR 0xE1] @ ''sico''), (''intermedio'', ''detallado''),
      (''avanzado'', ''experto'')]"

text \<open>The text of an answer of the gateway (an unstructured call returns a \<open>str\<close>).\<close>

definition as_str :: "json \<Rightarrow> string option" where
  "as_str v = (case v of JStr s \<Rightarrow> Some s | _ \<Rightarrow> None)"

text \<open>\<open>handle_text_message\<close>, up to its call of \<open>set_user_state\<close>.\<close>

definition handle_text_message :: "env \<Rightarrow> http_reply \<Rightarrow> ustate \<Rightarrow> string \<Rightarrow> hres" where
  "handle_text_message e reply state text =
     (if bot_state state = ''waiting_for_duda_cuaderno'' then
        (let cs = [(NotebookPrompt text, False)]
         in case as_str (call_gemini_api e False reply) of
              None \<Rightarrow> raises TypeError state [] cs
            | Some bot_response \<Rightarrow>
                returns state
                  (map Reply (send_long_message bot_response) @ [AnotherNotebookDoubt]) cs)
      else if bot_state state = ''waiting_for_doubt'' then
        (case re_search text of
           None \<Rightarrow> returns state [FormatError] []
         | Some (doubt, difficulty) \<Rightarrow>
             (case map_of difficulty_map (str_lower difficulty) of
                None \<Rightarrow> raises KeyError state [] []
              | Some level \<Rightarrow>
                  (let cs = [(DoubtPrompt (str_strip doubt) level, False)]
                   in case as_str (call_gemini_api e False reply) of
                        None \<Rightarrow> raises TypeError state [] cs
                      | Some bot_response \<Rightarrow>
                          returns
                            (state\<lparr>bot_state := ''waiting_for_deepen_topic'',
                                   last_asesoria_topic := Some doubt\<rparr>)
                            (map Reply (send_long_message bot_response) @ [DeepenOffer]) cs)))
      else if bot_state state = ''waiting_for_deepen_topic'' then
        (let cs = [(DeepenPrompt (str_strip text) (last_asesoria_topic state), False)]
         in case as_str (call_gemini_api e False reply) of
              None \<Rightarrow> raises TypeError state [] cs
            | Some bot_response \<Rightarrow>
                returns state (map Reply (send_long_message bot_response) @ [DeepenOffer]) cs)
      else if bot_state state = ''waiting_for_example_topic'' then
        (let cs = [(ExamplePrompt (str_strip text), False)]
         in case as_str (call_gemini_api e False reply) of
              None \<Rightarrow> raises TypeError state [] cs
            | Some bot_response \<Rightarrow>
                returns (state\<lparr>bot_state := ''idle''\<rparr>)
                  (map Reply (send_long_message bot_response) @ [ExampleDone]) cs)
      else if bot_state state = ''waiting_for_exercise_answer'' then
        (case current_exercise state of
           None \<Rightarrow> raises AttributeError state [] []
         | Some exercise \<Rightarrow>
             (let cs = [(VerifyPrompt (map_of exercise ''problem'') (map_of exercise ''solution'')
                           (str_strip text), False)]
              in case as_str (call_gemini_api e False reply) of
                   None \<Rightarrow> raises TypeError state [] cs
                 | Some verification \<Rightarrow>
                     (if list_ex (\<lambda>keyword. str_in keyword (str_lower verification))
                           positive_keywords
                      then returns (state\<lparr>bot_state := ''waiting_for_next_action''\<rparr>)
                             (map Reply (send_long_message verification) @ [NextActionMenu]) cs
                      else returns (state\<lparr>bot_state := ''waiting_for_exercise_resolution''\<rparr>)
                             (map Reply (send_long_message verification) @ [ResolutionMenu])
                             cs)))
      else returns state [] [])"

definition no_solution :: string where
  "no_solution = ''No se encontr'' @ [CHR 0xF3] @ '' la soluci'' @ [CHR 0xF3] @ ''n.''"

text \<open>The messages a handler sent before the call of \<open>generate_exercise\<close>.\<close>

definition after_sending :: "bot_msg list \<Rightarrow> hres \<Rightarrow> hres" where
  "after_sending ms r = r\<lparr>hsent := ms @ hsent r\<rparr>"

text \<open>\<open>handle_callback_query\<close>, up to its call of \<open>set_user_state\<close>.\<close>

definition handle_callback_query :: "env \<Rightarrow> http_reply \<Rightarrow> ustate \<Rightarrow> string \<Rightarrow> hres" where
  "handle_callback_query e reply state action =
     (if startswith action ''topic_'' then
        (case str_split1 (CHR ''_'') action of
           [_, topic] \<Rightarrow>
             returns
               (state\<lparr>bot_state := ''waiting_for_exercise_difficulty'',
                      current_exercise := Some [(''topic'', JStr topic)]\<rparr>)
               [EditChooseDifficulty topic] []
         | _ \<Rightarrow> raises IndexError state [] [])
      else if startswith action ''diff_'' then
        (case str_split1 (CHR ''_'') action of
           [_, d] \<Rightarrow>
             (case py_int d of
                Inl x \<Rightarrow> raises x state [] []
              | Inr difficulty \<Rightarrow>
                  (case current_exercise state of
                     None \<Rightarrow> raises TypeError state [] []
                   | Some ex \<Rightarrow>
                       (let state1 = state\<lparr>current_exercise :=
                                       Some (AList.update ''difficulty'' (JInt difficulty) ex)\<rparr>
                        in case map_of ex ''topic'' of
                             None \<Rightarrow> raises KeyError state1 [] []
                           | Some topic \<Rightarrow>
                               after_sending [EditGenerating topic difficulty]
                                 (generate_exercise e reply state1))))
         | _ \<Rightarrow> raises IndexError state [] [])
      else if action = ''deepen_no'' \<or> action = ''main_menu'' then
        returns (state\<lparr>bot_state := ''idle'', last_asesoria_topic := None\<rparr>) [EditBackToMenu] []
      else if action = ''next_action_similar'' then
        after_sending [EditGeneratingAnother] (generate_exercise e reply state)
      else if action = ''resolution_retry'' then
        returns (state\<lparr>bot_state := ''waiting_for_exercise_answer''\<rparr>) [EditRetry] []
      else if action = ''resolution_solve'' then
        (let state1 = state\<lparr>bot_state := ''idle''\<rparr>
         in case current_exercise state of
              None \<Rightarrow> raises AttributeError state1 [] []
            | Some ex \<Rightarrow>
                returns state1
                  [EditSolution (case map_of ex ''solution'' of
                                   None \<Rightarrow> JStr no_solution
                                 | Some v \<Rightarrow> v)] [])
      else returns state [] [])"

section \<open>Dispatch of one update\<close>

text \<open>
  An update of Telegram as the registered handlers see it: a command (the name given
  to \<open>CommandHandler\<close>), a text that is not a command, or the callback data of a
  pressed button.
\<close>

datatype event = Command string | TextMessage string | ButtonPress string

text \<open>
  What one update leaves: the stored document, the messages sent, the gateway calls
  made and the exception that reached \<open>error_handler\<close>, if any.
\<close>

record outcome =
  stored :: "ustate option"
  sent :: "bot_msg list"
  calls :: "(prompt \<times> bool) list"
  raised :: "py_error option"

text \<open>
  The end of a handler that read the state. When it returns, \<open>set_user_state\<close> stores
  the \<open>dict\<close>. When it raises, nothing is written to Firestore; without Firestore the
  \<open>dict\<close> is \<open>context.user_data\<close> itself, so what the handler had assigned stays.
  \<open>error_handler\<close> then sends its apology.
\<close>

definition finish :: "env \<Rightarrow> ustate option \<Rightarrow> hres \<Rightarrow> outcome" where
  "finish e doc r =
     (case herr r of
        None \<Rightarrow> \<lparr>stored = Some (hstate r), sent = hsent r, calls = hcalls r, raised = None\<rparr>
      | Some x \<Rightarrow>
          \<lparr>stored = (if db e then doc else Some (hstate r)), sent = hsent r @ [Apology],
           calls = hcalls r, raised = Some x\<rparr>)"

definition start_command :: "ustate option \<Rightarrow> outcome" where
  "start_command doc =
     \<lparr>stored = Some \<lparr>bot_state = ''idle'', last_asesoria_topic = None, current_exercise = None\<rparr>,
      sent = [Welcome], calls = [], raised = None\<rparr>"

text \<open>\<open>asesoria_command\<close>, \<open>ejemplo_command\<close>, \<open>prueba_command\<close>, \<open>dudas_command\<close>.\<close>

definition mode_command :: "string \<Rightarrow> bot_msg \<Rightarrow> ustate option \<Rightarrow> outcome" where
  "mode_command mode msg doc =
     \<lparr>stored = Some ((get_user_state doc)\<lparr>bot_state := mode\<rparr>),
      sent = [msg], calls = [], raised = None\<rparr>"

definition encuesta_command :: "ustate option \<Rightarrow> outcome" where
  "encuesta_command doc = \<lparr>stored = doc, sent = [SurveyLink], calls = [], raised = None\<rparr>"

definition handle_event :: "env \<Rightarrow> http_reply \<Rightarrow> ustate option \<Rightarrow> event \<Rightarrow> outcome" where
  "handle_event e reply doc ev =
     (case ev of
        Command c \<Rightarrow>
          (if c = ''start'' then start_command doc
           else if c = ''asesoria'' then mode_command ''waiting_for_doubt'' AskDoubt doc
           else if c = ''ejemplo'' then mode_command ''waiting_for_example_topic'' AskExampleTopic doc
           else if c = ''prueba'' then mode_command ''waiting_for_exercise_topic'' ChooseTopic doc
           else if c = ''dudas'' then
             mode_command ''waiting_for_duda_cuaderno'' AskNotebookQuestion doc
           else if c = ''encuesta'' then encuesta_command doc
           else \<lparr>stored = doc, sent = [], calls = [], raised = None\<rparr>)
      | TextMessage text \<Rightarrow> finish e doc (handle_text_message e reply (get_user_state doc) text)
      | ButtonPress action \<Rightarrow>
          finish e doc (handle_callback_query e reply (get_user_state doc) action))"

text \<open>A conversation: the updates of one user in order, each with its HTTP exchange.\<close>

fun run :: "env \<Rightarrow> ustate option \<Rightarrow> (http_reply \<times> event) list \<Rightarrow> ustate option" where
  "run e doc [] = doc"
| "run e doc ((reply, ev) # evs) = run e (stored (handle_event e reply doc ev)) evs"

section \<open>Notions of the specification\<close>


text \<open>A text contains a keyword when compared without regard to case.\<close>

definition contains_ci :: "string \<Rightarrow> string \<Rightarrow> bool" where
  "contains_ci text keyword =
     (\<exists>before found after. text = before @ found @ after \<and> str_lower found = keyword)"

text \<open>Lines joined by newlines, and a line with something other than white space.\<close>

fun join_lines :: "string list \<Rightarrow> string" where
  "join_lines [] = []"
| "join_lines [l] = l"
| "join_lines (l # m # ls) = l @ NL # join_lines (m # ls)"

definition nonblank :: "string \<Rightarrow> bool" where
  "nonblank l = (str_strip l \<noteq> [])"

text \<open>
  The transition table of the specification (section 4.1): whether it has a row for
  an event in a mode. Modes are written as the code stores them
  (\<open>awaiting_notebook_question\<close> is \<open>waiting_for_duda_cuaderno\<close>, every other
  \<open>awaiting_x\<close> is \<open>waiting_for_x\<close>). The six commands have a row in any mode.
\<close>

definition table_defines :: "string \<Rightarrow> event \<Rightarrow> bool" where
  "table_defines mode ev =
     (case ev of
        Command c \<Rightarrow>
          c \<in> {''start'', ''asesoria'', ''ejemplo'', ''prueba'', ''dudas'', ''encuesta''}
      | TextMessage text \<Rightarrow>
          mode \<in> {''waiting_for_duda_cuaderno'', ''waiting_for_doubt'', ''waiting_for_deepen_topic'',
                  ''waiting_for_example_topic'', ''waiting_for_exercise_answer''}
      | ButtonPress a \<Rightarrow>
          (mode = ''waiting_for_deepen_topic'' \<and> (a = ''deepen_no'' \<or> a = ''main_menu'')) \<or>
          (mode = ''waiting_for_exercise_topic'' \<and> startswith a ''topic_'') \<or>
          (mode = ''waiting_for_exercise_difficulty'' \<and> startswith a ''diff_'') \<or>
          (mode = ''waiting_for_exercise_resolution'' \<and>
             (a = ''resolution_retry'' \<or> a = ''resolution_solve'')) \<or>
          (mode = ''waiting_for_next_action'' \<and>
             (a = ''next_action_similar'' \<or> a = ''main_menu'')))"

text \<open>The action ids \<open>handle_callback_query\<close> has a branch for.\<close>

definition known_action :: "string \<Rightarrow> bool" where
  "known_action a =
     (startswith a ''topic_'' \<or> startswith a ''diff_'' \<or>
      a \<in> {''deepen_no'', ''main_menu'', ''next_action_similar'', ''resolution_retry'',
            ''resolution_solve''})"

text \<open>The non-blank lines, each without the white space around it.\<close>

definition stripped_nonblank :: "string list \<Rightarrow> string list" where
  "stripped_nonblank ls = map str_strip (filter nonblank ls)"

text \<open>
  Two results of a handler that agree in everything but, possibly, the mode: either the
  handler assigned the same mode in both, or it left in each the mode it was given.
\<close>

definition agree_but_mode :: "string \<Rightarrow> string \<Rightarrow> hres \<Rightarrow> hres \<Rightarrow> bool" where
  "agree_but_mode m1 m2 r1 r2 =
     (herr r1 = herr r2 \<and> hsent r1 = hsent r2 \<and> hcalls r1 = hcalls r2 \<and>
      last_asesoria_topic (hstate r1) = last_asesoria_topic (hstate r2) \<and>
      current_exercise (hstate r1) = current_exercise (hstate r2) \<and>
      (bot_state (hstate r1) = bot_state (hstate r2) \<or>
       (bot_state (hstate r1) = m1 \<and> bot_state (hstate r2) = m2)))"

text \<open>
  The exercise is present in the modes \<open>awaiting_exercise_difficulty\<close>,
  \<open>awaiting_exercise_resolution\<close> and \<open>awaiting_next_action\<close>.
\<close>

definition exercise_kept :: "ustate \<Rightarrow> bool" where
  "exercise_kept s =
     (bot_state s \<in> {''waiting_for_exercise_difficulty'', ''waiting_for_exercise_resolution'',
                     ''waiting_for_next_action''} \<longrightarrow> current_exercise s \<noteq> None)"

section \<open>A concrete environment for the examples\<close>

text \<open>
  The text of a generated exercise, \<open>{"problem": "2+2", "solution": "4"}\<close>, a decoder
  that knows this one text and refuses every other, and an environment with an API key
  (the examples format strings only, so \<open>py_str\<close> is never asked).
\<close>

definition demo_text :: string where
  "demo_text = ''{'' @ [CHR 0x22] @ ''problem'' @ [CHR 0x22] @ '': '' @ [CHR 0x22] @ ''2+2''
     @ [CHR 0x22] @ '', '' @ [CHR 0x22] @ ''solution'' @ [CHR 0x22] @ '': '' @ [CHR 0x22] @ ''4''
     @ [CHR 0x22] @ ''}''"

definition demo_loads :: "string \<Rightarrow> json option" where
  "demo_loads s =
     (if s = demo_text then Some (JObj [(''problem'', JStr ''2+2''), (''solution'', JStr ''4'')])
      else None)"

definition demo_env :: "bool \<Rightarrow> env" where
  "demo_env with_db =
     \<lparr>db = with_db, gemini_api_key = Some ''key'', json_loads = demo_loads,
      py_str = (\<lambda>v. ''None'')\<rparr>"

definition topic_chosen :: ustate where
  "topic_chosen =
     \<lparr>bot_state = ''waiting_for_exercise_difficulty'', last_asesoria_topic = None,
      current_exercise = Some [(''topic'', JStr ''Polinomios'')]\<rparr>"

definition exercise_given :: ustate where
  "exercise_given =
     \<lparr>bot_state = ''waiting_for_exercise_answer'', last_asesoria_topic = None,
      current_exercise = Some [(''topic'', JStr ''Polinomios''), (''difficulty'', JInt 3),
                               (''problem'', JStr ''2+2''), (''solution'', JStr ''4'')]\<rparr>"

text \<open>A record in mode \<open>awaiting_doubt\<close>.\<close>

definition doubt_asked :: ustate where
  "doubt_asked =
     \<lparr>bot_state = ''waiting_for_doubt'', last_asesoria_topic = None, current_exercise = None\<rparr>"

text \<open>
  Two conversations from the first contact on (the HTTP exchange paired with an update
  that makes no gateway call is not used): an exercise answered wrongly, and then
  \<open>/start\<close> followed by the button "Intentar de nuevo" of the earlier message.
\<close>

definition wrong_answer :: "(http_reply \<times> event) list" where
  "wrong_answer =
     [(TextContent None, Command ''prueba''),
      (TextContent None, ButtonPress ''topic_Polinomios''),
      (TextContent (Some demo_text), ButtonPress ''diff_3''),
      (TextContent (Some ''Casi, revisa el signo''), TextMessage ''5'')]"

definition retry_after_start :: "(http_reply \<times> event) list" where
  "retry_after_start =
     wrong_answer @
     [(TextContent None, Command ''start''),
      (TextContent None, ButtonPress ''resolution_retry'')]"

text \<open>The end of a text that asks for a level the pattern does not know.\<close>

definition nivel_rapido :: string where
  "nivel_rapido = '' nivel r'' @ [CHR 0xE1] @ ''pido''"

text \<open>
  A text of 4099 characters in two lines, the first one indented: each line fits the
  limit, the whole text does not.
\<close>

definition long_line :: string where
  "long_line = replicate 4095 (CHR ''b'')"

definition indented_text :: string where
  "indented_text = ''  a'' @ NL # long_line"

section \<open>The AI gateway\<close>

lemma unstructured_is_str: "\<exists>s. call_gemini_api e False reply = JStr s"
  by (simp add: call_gemini_api_def split: http_reply.split option.split)

lemma failure_messages_differ:
  "msg_http \<noteq> msg_connecting \<and> msg_http \<noteq> msg_no_answer \<and> msg_connecting \<noteq> msg_no_answer"
  by (simp add: msg_http_def msg_connecting_def msg_no_answer_def)

lemma demo_configured: "configured (demo_env b)"
  by (simp add: configured_def demo_env_def)

lemma demo_refuses_brace: "json_loads (demo_env b) ''{'' = None"
  by (simp add: demo_env_def demo_loads_def demo_text_def)

text \<open>
  C7, as the code has it. \<open>call_gemini_api\<close> returns a value in every case (it raises
  nothing), and with an API key each failure returns one of three fixed strings: one
  for an HTTP status error, one for any other exception, one for a missing or empty
  text. The three strings differ. A structured call whose text \<open>json.loads\<close> refuses
  returns the string of the other exceptions, never an object.
\<close>

theorem gateway_failure_strings:
  "configured e \<Longrightarrow>
     call_gemini_api e s HTTPStatusError = JStr msg_http \<and>
     call_gemini_api e s OtherException = JStr msg_connecting \<and>
     call_gemini_api e s (TextContent None) = JStr msg_no_answer \<and>
     call_gemini_api e s (TextContent (Some [])) = JStr msg_no_answer \<and>
     (t \<noteq> [] \<and> json_loads e t = None \<longrightarrow>
        call_gemini_api e True (TextContent (Some t)) = JStr msg_connecting) \<and>
     msg_http \<noteq> msg_connecting \<and> msg_http \<noteq> msg_no_answer \<and> msg_connecting \<noteq> msg_no_answer"
  using failure_messages_differ by (simp add: call_gemini_api_def)

theorem gateway_failure_strings_witness:
  "call_gemini_api (demo_env True) True HTTPStatusError = JStr msg_http \<and>
   call_gemini_api (demo_env True) True OtherException = JStr msg_connecting \<and>
   call_gemini_api (demo_env True) True (TextContent None) = JStr msg_no_answer \<and>
   call_gemini_api (demo_env True) True (TextContent (Some [])) = JStr msg_no_answer \<and>
   call_gemini_api (demo_env True) True (TextContent (Some ''{'')) = JStr msg_connecting"
  using gateway_failure_strings [OF demo_configured, of True True "''{''"] demo_refuses_brace
  by simp

text \<open>
  C7 as stated fails: the malformed response (a structured text that does not parse)
  gets the very message of the unreachable service.
\<close>

theorem parse_failure_reads_as_unreachable:
  "call_gemini_api (demo_env True) True (TextContent (Some ''{''))
     = call_gemini_api (demo_env True) True OtherException"
  by (simp add: call_gemini_api_def demo_env_def demo_loads_def demo_text_def configured_def)

section \<open>The reset command\<close>

text \<open>
  C8: in any mode and on any stored record, \<open>/start\<close> stores the default record (mode
  \<open>idle\<close>, no last topic, no exercise), and so does \<open>/start\<close> sent any number of
  times in a row.
\<close>

theorem start_resets:
  "stored (handle_event e reply doc (Command ''start''))
     = Some \<lparr>bot_state = ''idle'', last_asesoria_topic = None, current_exercise = None\<rparr> \<and>
   run e doc (map (\<lambda>r. (r, Command ''start'')) (reply # replies))
     = Some \<lparr>bot_state = ''idle'', last_asesoria_topic = None, current_exercise = None\<rparr>"
proof -
  have one: "\<And>d r. stored (handle_event e r d (Command ''start''))
     = Some \<lparr>bot_state = ''idle'', last_asesoria_topic = None, current_exercise = None\<rparr>"
    by (simp add: handle_event_def start_command_def)
  have "run e d (map (\<lambda>r. (r, Command ''start'')) (r # rs))
     = Some \<lparr>bot_state = ''idle'', last_asesoria_topic = None, current_exercise = None\<rparr>" for d r rs
    by (induction rs arbitrary: d r) (simp_all add: one)
  with one show ?thesis by blast
qed

theorem start_resets_witness:
  "stored (handle_event (demo_env True) HTTPStatusError (Some exercise_given) (Command ''start''))
     = Some default_state \<and>
   run (demo_env True) (Some exercise_given)
     [(HTTPStatusError, Command ''start''), (OtherException, Command ''start''),
      (HTTPStatusError, Command ''start'')] = Some default_state"
  using start_resets [of "demo_env True" HTTPStatusError "Some exercise_given"
      "[OtherException, HTTPStatusError]"]
  by (simp add: default_state_def del: run.simps)

section \<open>Verdict of an answer\<close>


lemma problem_in_failure:
  "str_in ''problem'' msg_http" "str_in ''problem'' msg_connecting"
  "\<not> str_in ''problem'' msg_no_answer" "\<not> str_in ''problem'' msg_not_configured"
  by code_simp+


lemma str_in_iff: "str_in n h \<longleftrightarrow> (\<exists>p s. h = p @ n @ s)"
proof (induction h)
  case Nil
  then show ?case by auto
next
  case (Cons c cs)
  show ?case
  proof
    assume "str_in n (c # cs)"
    then consider "prefix n (c # cs)" | "str_in n cs" by auto
    then show "\<exists>p s. c # cs = p @ n @ s"
    proof cases
      case 1
      then obtain s where "c # cs = n @ s" by (auto simp: prefix_def)
      then have "c # cs = [] @ n @ s" by simp
      then show ?thesis by blast
    next
      case 2
      with Cons obtain p s where "cs = p @ n @ s" by auto
      then have "c # cs = (c # p) @ n @ s" by simp
      then show ?thesis by blast
    qed
  next
    assume "\<exists>p s. c # cs = p @ n @ s"
    then obtain p s where ps: "c # cs = p @ n @ s" by auto
    show "str_in n (c # cs)"
    proof (cases p)
      case Nil
      with ps have "prefix n (c # cs)" by (simp add: prefix_def)
      then show ?thesis by simp
    next
      case (Cons a p')
      with ps have "cs = p' @ n @ s" by simp
      with Cons.IH have "str_in n cs" by blast
      then show ?thesis by simp
    qed
  qed
qed

lemma contains_ci_iff: "contains_ci text k \<longleftrightarrow> str_in k (str_lower text)"
proof
  assume "contains_ci text k"
  then obtain b f a where "text = b @ f @ a" "str_lower f = k"
    by (auto simp: contains_ci_def)
  then have "str_lower text = str_lower b @ k @ str_lower a"
    by (simp add: str_lower_def)
  then show "str_in k (str_lower text)" unfolding str_in_iff by blast
next
  assume "str_in k (str_lower text)"
  then obtain p s where "map lower_char text = p @ k @ s"
    unfolding str_in_iff str_lower_def by blast
  define b where "b = take (length p) text"
  define f where "f = take (length k) (drop (length p) text)"
  define a where "a = drop (length k) (drop (length p) text)"
  have "f @ a = drop (length p) text"
    unfolding f_def a_def by (rule append_take_drop_id)
  then have "text = b @ f @ a"
    unfolding b_def by simp
  moreover have "map lower_char f = take (length k) (drop (length p) (map lower_char text))"
    by (simp add: f_def take_map drop_map)
  then have "str_lower f = k"
    using \<open>map lower_char text = p @ k @ s\<close> by (simp add: str_lower_def)
  ultimately show "contains_ci text k"
    unfolding contains_ci_def by blast
qed

text \<open>
  C4: for every stored exercise and every answer received in mode
  \<open>waiting_for_exercise_answer\<close>, with \<open>feedback\<close> the text the gateway returned, the
  next mode is \<open>waiting_for_next_action\<close> (the verdict is correct) if and only if the
  feedback contains, without regard to case, one of the six keywords; otherwise it is
  \<open>waiting_for_exercise_resolution\<close>.
\<close>

theorem verdict_by_keywords:
  assumes "bot_state st = ''waiting_for_exercise_answer''"
      and "current_exercise st = Some ex"
      and "call_gemini_api e False reply = JStr feedback"
  shows "bot_state (get_user_state (stored (handle_event e reply (Some st) (TextMessage text))))
     = (if \<exists>k \<in> {''correcto'', ''exacto'', ''perfecto'', ''muy bien'', ''excelente'', ''felicidades''}.
             contains_ci feedback k
        then ''waiting_for_next_action'' else ''waiting_for_exercise_resolution'')"
  using assms
  by (simp add: handle_event_def handle_text_message_def get_user_state_def finish_def as_str_def
      returns_def contains_ci_iff positive_keywords_def)

lemma verdict_examples:
  "(\<exists>k \<in> {''correcto'', ''exacto'', ''perfecto'', ''muy bien'', ''excelente'', ''felicidades''}.
      contains_ci ([CHR 0xA1] @ ''Excelente trabajo!'') k)"
  "\<not> (\<exists>k \<in> {''correcto'', ''exacto'', ''perfecto'', ''muy bien'', ''excelente'', ''felicidades''}.
      contains_ci ''Casi, revisa el signo'' k)"
  unfolding contains_ci_iff by code_simp+

theorem verdict_by_keywords_witness:
  "bot_state (get_user_state (stored (handle_event (demo_env True)
      (TextContent (Some ([CHR 0xA1] @ ''Excelente trabajo!''))) (Some exercise_given)
      (TextMessage ''4'')))) = ''waiting_for_next_action'' \<and>
   bot_state (get_user_state (stored (handle_event (demo_env True)
      (TextContent (Some ''Casi, revisa el signo'')) (Some exercise_given)
      (TextMessage ''5'')))) = ''waiting_for_exercise_resolution''"
proof -
  have st: "bot_state exercise_given = ''waiting_for_exercise_answer''"
    "current_exercise exercise_given = Some [(''topic'', JStr ''Polinomios''), (''difficulty'', JInt 3),
                               (''problem'', JStr ''2+2''), (''solution'', JStr ''4'')]"
    by (simp_all add: exercise_given_def)
  have g: "call_gemini_api (demo_env True) False (TextContent (Some ([CHR 0xA1] @ ''Excelente trabajo!'')))
      = JStr ([CHR 0xA1] @ ''Excelente trabajo!'')"
    "call_gemini_api (demo_env True) False (TextContent (Some ''Casi, revisa el signo''))
      = JStr ''Casi, revisa el signo''"
    by (simp_all add: call_gemini_api_def demo_configured)
  show ?thesis
    using verdict_by_keywords [OF st g(1), of "''4''"] verdict_by_keywords [OF st g(2), of "''5''"]
      verdict_examples
    by presburger
qed





section \<open>A failed generation of an exercise\<close>

lemma generate_exercise_takes_message:
  assumes "current_exercise st = Some ex" "map_of ex ''topic'' = Some t"
      "map_of ex ''difficulty'' = Some d" "call_gemini_api e True reply = JStr m"
      "str_in ''problem'' m"
  shows "generate_exercise e reply st
    = raises ValueError (st\<lparr>bot_state := ''waiting_for_exercise_answer''\<rparr>) []
        [(ExercisePrompt t d, True)]"
proof -
  from assms(5) have "m \<noteq> []" by auto
  with assms show ?thesis by (simp add: generate_exercise_def)
qed

lemma failing_structured:
  assumes "configured e"
    and "reply = HTTPStatusError \<or> reply = OtherException \<or>
         (\<exists>t. reply = TextContent (Some t) \<and> t \<noteq> [] \<and> json_loads e t = None)"
  shows "\<exists>m. call_gemini_api e True reply = JStr m \<and> str_in ''problem'' m"
  using assms problem_in_failure(1,2) by (auto simp: call_gemini_api_def)

lemma diff_button:
  assumes "current_exercise st = Some ex" "map_of ex ''topic'' = Some topic" "py_int d = Inr n"
  shows "handle_callback_query e reply st (''diff_'' @ d) =
    after_sending [EditGenerating topic n]
      (generate_exercise e reply
         (st\<lparr>current_exercise := Some (AList.update ''difficulty'' (JInt n) ex)\<rparr>))"
  using assms by (simp add: handle_callback_query_def startswith_def)

lemma py_int_3: "py_int ''3'' = Inr 3"
  by code_simp

text \<open>
  \<open>int\<close> skips the white space of \<open>str.strip()\<close> except the separators
  U+001C..U+001F: a difficulty button whose data ends in one of them raises
  \<open>ValueError\<close> before any gateway call.
\<close>

lemma py_int_white_space:
  "py_int ('' 3'' @ [CHR 0x85]) = Inr 3"
  "py_int (''3'' @ [CHR 0x1F]) = Inl ValueError"
  "py_int (CHR 0x1C # ''3'') = Inl ValueError"
  "raised (handle_event (demo_env True) (TextContent (Some demo_text)) (Some topic_chosen)
     (ButtonPress (''diff_3'' @ [CHR 0x1F]))) = Some ValueError"
  "calls (handle_event (demo_env True) (TextContent (Some demo_text)) (Some topic_chosen)
     (ButtonPress (''diff_3'' @ [CHR 0x1F]))) = []"
  by code_simp+

text \<open>
  C1 does not hold of the code. In mode \<open>waiting_for_exercise_difficulty\<close>, with a
  topic chosen, pressing \<open>diff_n\<close> when the gateway answers with an HTTP error, another
  exception or a text that does not parse: the failure string contains "problem" (in
  "problema"), so \<open>"problem" in exercise_data\<close> holds, the mode is set to
  \<open>waiting_for_exercise_answer\<close> and \<open>update\<close> raises \<open>ValueError\<close>. The user
  gets the apology of \<open>error_handler\<close>, not the advice to retry; with Firestore the
  stored record is unchanged (mode \<open>waiting_for_exercise_difficulty\<close>), without it the
  mode \<open>waiting_for_exercise_answer\<close> stays in \<open>user_data\<close>.
\<close>

theorem failure_message_taken_for_exercise:
  assumes "configured e"
      and "bot_state st = ''waiting_for_exercise_difficulty''"
      and "current_exercise st = Some ex" and "map_of ex ''topic'' = Some topic"
      and "py_int d = Inr n"
      and "reply = HTTPStatusError \<or> reply = OtherException \<or>
           (\<exists>t. reply = TextContent (Some t) \<and> t \<noteq> [] \<and> json_loads e t = None)"
  shows "handle_event e reply (Some st) (ButtonPress (''diff_'' @ d)) =
           \<lparr>stored = (if db e then Some st
                      else Some (st\<lparr>bot_state := ''waiting_for_exercise_answer'',
                             current_exercise := Some (AList.update ''difficulty'' (JInt n) ex)\<rparr>)),
            sent = [EditGenerating topic n, Apology],
            calls = [(ExercisePrompt topic (JInt n), True)],
            raised = Some ValueError\<rparr>"
proof -
  from failing_structured [OF assms(1,6)] obtain m
    where m: "call_gemini_api e True reply = JStr m" "str_in ''problem'' m" by blast
  let ?st1 = "st\<lparr>current_exercise := Some (AList.update ''difficulty'' (JInt n) ex)\<rparr>"
  have g: "generate_exercise e reply ?st1
    = raises ValueError (?st1\<lparr>bot_state := ''waiting_for_exercise_answer''\<rparr>) []
        [(ExercisePrompt topic (JInt n), True)]"
  proof (rule generate_exercise_takes_message [OF _ _ _ m])
    show "current_exercise ?st1 = Some (AList.update ''difficulty'' (JInt n) ex)" by simp
    show "map_of (AList.update ''difficulty'' (JInt n) ex) ''topic'' = Some topic"
      using assms(4) by (simp add: AList.update_conv')
    show "map_of (AList.update ''difficulty'' (JInt n) ex) ''difficulty'' = Some (JInt n)"
      by (simp add: AList.update_conv')
  qed
  have "handle_event e reply (Some st) (ButtonPress (''diff_'' @ d)) =
    finish e (Some st) (handle_callback_query e reply st (''diff_'' @ d))"
    unfolding handle_event_def get_user_state_def by simp
  also have "\<dots> = finish e (Some st) (after_sending [EditGenerating topic n]
      (raises ValueError (?st1\<lparr>bot_state := ''waiting_for_exercise_answer''\<rparr>) []
        [(ExercisePrompt topic (JInt n), True)]))"
    unfolding diff_button [OF assms(3,4,5)] g ..
  also have "\<dots> = \<lparr>stored = (if db e then Some st
                      else Some (st\<lparr>bot_state := ''waiting_for_exercise_answer'',
                             current_exercise := Some (AList.update ''difficulty'' (JInt n) ex)\<rparr>)),
            sent = [EditGenerating topic n, Apology],
            calls = [(ExercisePrompt topic (JInt n), True)],
            raised = Some ValueError\<rparr>"
    by (simp add: finish_def after_sending_def raises_def)
  finally show ?thesis .
qed


theorem failure_message_taken_for_exercise_witness:
  "handle_event (demo_env True) HTTPStatusError (Some topic_chosen) (ButtonPress ''diff_3'') =
     \<lparr>stored = Some topic_chosen,
      sent = [EditGenerating (JStr ''Polinomios'') 3, Apology],
      calls = [(ExercisePrompt (JStr ''Polinomios'') (JInt 3), True)],
      raised = Some ValueError\<rparr> \<and>
   stored (handle_event (demo_env False) OtherException (Some topic_chosen) (ButtonPress ''diff_3'')) =
     Some \<lparr>bot_state = ''waiting_for_exercise_answer'', last_asesoria_topic = None,
           current_exercise = Some [(''topic'', JStr ''Polinomios''), (''difficulty'', JInt 3)]\<rparr>"
proof -
  have st: "bot_state topic_chosen = ''waiting_for_exercise_difficulty''"
    "current_exercise topic_chosen = Some [(''topic'', JStr ''Polinomios'')]"
    "map_of [(''topic'', JStr ''Polinomios'')] ''topic'' = Some (JStr ''Polinomios'')"
    by (simp_all add: topic_chosen_def)
  have db: "db (demo_env True)" "\<not> db (demo_env False)"
    by (simp_all add: demo_env_def)
  from failure_message_taken_for_exercise [OF demo_configured st py_int_3, of HTTPStatusError True]
    failure_message_taken_for_exercise [OF demo_configured st py_int_3, of OtherException False]
    db
  show ?thesis by (simp add: topic_chosen_def)
qed

text \<open>
  The fall-back of \<open>generate_exercise\<close> is reached by the failures whose string has no
  "problem" in it (no API key, a missing or empty text): the mode becomes \<open>idle\<close> and
  the user is told to retry with \<open>/prueba\<close>.
\<close>

lemma generate_exercise_falls_back:
  assumes "current_exercise st = Some ex" "map_of ex ''topic'' = Some t"
      "map_of ex ''difficulty'' = Some d" "call_gemini_api e True reply = JStr m"
      "\<not> str_in ''problem'' m"
  shows "generate_exercise e reply st
    = returns (st\<lparr>bot_state := ''idle''\<rparr>) [RetryWithPrueba] [(ExercisePrompt t d, True)]"
  using assms by (cases "m = []") (simp_all add: generate_exercise_def Let_def)

lemma empty_answer_falls_back_to_idle:
  assumes "current_exercise st = Some ex" and "map_of ex ''topic'' = Some topic"
      and "py_int d = Inr n"
      and "\<not> configured e \<or> reply = TextContent None \<or> reply = TextContent (Some [])"
  shows "handle_event e reply (Some st) (ButtonPress (''diff_'' @ d)) =
           \<lparr>stored = Some (st\<lparr>bot_state := ''idle'',
                          current_exercise := Some (AList.update ''difficulty'' (JInt n) ex)\<rparr>),
            sent = [EditGenerating topic n, RetryWithPrueba],
            calls = [(ExercisePrompt topic (JInt n), True)],
            raised = None\<rparr>"
proof -
  from assms(4) have "call_gemini_api e True reply = JStr msg_not_configured \<or>
      call_gemini_api e True reply = JStr msg_no_answer"
    by (auto simp: call_gemini_api_def)
  with problem_in_failure(3,4)
  obtain m where m: "call_gemini_api e True reply = JStr m" "\<not> str_in ''problem'' m"
    by blast
  let ?st1 = "st\<lparr>current_exercise := Some (AList.update ''difficulty'' (JInt n) ex)\<rparr>"
  have g: "generate_exercise e reply ?st1
    = returns (?st1\<lparr>bot_state := ''idle''\<rparr>) [RetryWithPrueba]
        [(ExercisePrompt topic (JInt n), True)]"
  proof (rule generate_exercise_falls_back [OF _ _ _ m])
    show "current_exercise ?st1 = Some (AList.update ''difficulty'' (JInt n) ex)" by simp
    show "map_of (AList.update ''difficulty'' (JInt n) ex) ''topic'' = Some topic"
      using assms(2) by (simp add: AList.update_conv')
    show "map_of (AList.update ''difficulty'' (JInt n) ex) ''difficulty'' = Some (JInt n)"
      by (simp add: AList.update_conv')
  qed
  have "handle_event e reply (Some st) (ButtonPress (''diff_'' @ d)) =
    finish e (Some st) (handle_callback_query e reply st (''diff_'' @ d))"
    unfolding handle_event_def get_user_state_def by simp
  also have "\<dots> = finish e (Some st) (after_sending [EditGenerating topic n]
      (returns (?st1\<lparr>bot_state := ''idle''\<rparr>) [RetryWithPrueba]
        [(ExercisePrompt topic (JInt n), True)]))"
    unfolding diff_button [OF assms(1,2,3)] g ..
  also have "\<dots> = \<lparr>stored = Some (st\<lparr>bot_state := ''idle'',
                          current_exercise := Some (AList.update ''difficulty'' (JInt n) ex)\<rparr>),
            sent = [EditGenerating topic n, RetryWithPrueba],
            calls = [(ExercisePrompt topic (JInt n), True)],
            raised = None\<rparr>"
    by (simp add: finish_def after_sending_def returns_def)
  finally show ?thesis .
qed

section \<open>Button presses\<close>

lemma agree_returns:
  "agree_but_mode m1 m2 (returns s1 ms cs) (returns s2 ms cs) =
    (last_asesoria_topic s1 = last_asesoria_topic s2 \<and> current_exercise s1 = current_exercise s2 \<and>
     (bot_state s1 = bot_state s2 \<or> bot_state s1 = m1 \<and> bot_state s2 = m2))"
  by (simp add: agree_but_mode_def returns_def)

lemma agree_raises:
  "agree_but_mode m1 m2 (raises er s1 ms cs) (raises er s2 ms cs) =
    (last_asesoria_topic s1 = last_asesoria_topic s2 \<and> current_exercise s1 = current_exercise s2 \<and>
     (bot_state s1 = bot_state s2 \<or> bot_state s1 = m1 \<and> bot_state s2 = m2))"
  by (simp add: agree_but_mode_def raises_def)

lemma generate_exercise_ignores_mode:
  "agree_but_mode m1 m2 (generate_exercise e reply (st\<lparr>bot_state := m1\<rparr>))
     (generate_exercise e reply (st\<lparr>bot_state := m2\<rparr>))"
  by (simp add: agree_returns agree_raises generate_exercise_def Let_def
      split: option.split sum.split bool.split json.split)


lemma after_sending_agree:
  "agree_but_mode m1 m2 r1 r2 \<Longrightarrow> agree_but_mode m1 m2 (after_sending ms r1) (after_sending ms r2)"
  by (simp add: agree_but_mode_def after_sending_def)

lemma swap_updates:
  "st\<lparr>bot_state := m, current_exercise := x\<rparr> = st\<lparr>current_exercise := x\<rparr>\<lparr>bot_state := m\<rparr>"
  by (cases st) simp

lemma callback_ignores_mode:
  "agree_but_mode m1 m2 (handle_callback_query e reply (st\<lparr>bot_state := m1\<rparr>) a)
     (handle_callback_query e reply (st\<lparr>bot_state := m2\<rparr>) a)"
proof -
  have g: "agree_but_mode m1 m2 (after_sending ms (generate_exercise e reply (s\<lparr>bot_state := m1\<rparr>)))
     (after_sending ms (generate_exercise e reply (s\<lparr>bot_state := m2\<rparr>)))" for ms s
    by (rule after_sending_agree [OF generate_exercise_ignores_mode])
  have g': "agree_but_mode m1 m2
     (after_sending ms (generate_exercise e reply (st\<lparr>bot_state := m1, current_exercise := x\<rparr>)))
     (after_sending ms (generate_exercise e reply (st\<lparr>bot_state := m2, current_exercise := x\<rparr>)))" for ms x
    unfolding swap_updates by (rule g)
  consider (topic) "startswith a ''topic_''"
    | (diff) "\<not> startswith a ''topic_''" "startswith a ''diff_''"
    | (other) "\<not> startswith a ''topic_''" "\<not> startswith a ''diff_''"
    by blast
  then show ?thesis
  proof cases
    case topic
    then show ?thesis
      unfolding handle_callback_query_def
      by (simp add: agree_returns agree_raises split: list.split del: str_split1.simps)
  next
    case diff
    then show ?thesis
      unfolding handle_callback_query_def
      by (simp add: g' agree_returns agree_raises Let_def
          split: list.split sum.split option.split del: str_split1.simps)
  next
    case other
    then show ?thesis
      unfolding handle_callback_query_def
      by (simp add: g agree_returns agree_raises Let_def split: option.split)
  qed
qed


text \<open>
  C10: \<open>handle_callback_query\<close> never reads the mode. Run on two records that differ
  in the mode only, it raises or returns alike, sends the same messages, makes the same
  gateway calls and leaves the same topic and exercise; the mode it leaves is either the
  same in both or, in each, the one it was given. \<open>resolution_retry\<close> stores the mode
  \<open>waiting_for_exercise_answer\<close> on any record, \<open>main_menu\<close> and \<open>deepen_no\<close> store
  \<open>idle\<close> and no last topic.
\<close>

theorem button_press_ignores_mode:
  "agree_but_mode m1 m2 (handle_callback_query e reply (st\<lparr>bot_state := m1\<rparr>) a)
     (handle_callback_query e reply (st\<lparr>bot_state := m2\<rparr>) a) \<and>
   stored (handle_event e reply doc (ButtonPress ''resolution_retry''))
     = Some ((get_user_state doc)\<lparr>bot_state := ''waiting_for_exercise_answer''\<rparr>) \<and>
   stored (handle_event e reply doc (ButtonPress ''main_menu''))
     = Some ((get_user_state doc)\<lparr>bot_state := ''idle'', last_asesoria_topic := None\<rparr>) \<and>
   stored (handle_event e reply doc (ButtonPress ''deepen_no''))
     = Some ((get_user_state doc)\<lparr>bot_state := ''idle'', last_asesoria_topic := None\<rparr>)"
  using callback_ignores_mode [of m1 m2 e reply st a]
  by (simp add: handle_event_def handle_callback_query_def finish_def returns_def startswith_def)

theorem button_press_ignores_mode_witness:
  "stored (handle_event (demo_env True) HTTPStatusError None (ButtonPress ''resolution_retry''))
     = Some \<lparr>bot_state = ''waiting_for_exercise_answer'', last_asesoria_topic = None,
             current_exercise = None\<rparr> \<and>
   stored (handle_event (demo_env True) HTTPStatusError (Some exercise_given) (ButtonPress ''main_menu''))
     = Some (exercise_given\<lparr>bot_state := ''idle''\<rparr>)"
  using button_press_ignores_mode [of _ _ "demo_env True" HTTPStatusError _ _ None]
    button_press_ignores_mode [of _ _ "demo_env True" HTTPStatusError _ _ "Some exercise_given"]
  by (simp add: get_user_state_def default_state_def exercise_given_def)

section \<open>The exercise of a reachable record\<close>

lemma generate_exercise_keeps:
  "exercise_kept st \<Longrightarrow> exercise_kept (hstate (generate_exercise e reply st))"
  by (auto simp: exercise_kept_def generate_exercise_def returns_def raises_def Let_def
      split: option.split sum.split bool.split json.split)

lemma text_keeps:
  "exercise_kept st \<Longrightarrow> exercise_kept (hstate (handle_text_message e reply st text))"
  by (simp add: exercise_kept_def handle_text_message_def returns_def raises_def Let_def
      split: option.split prod.split)

lemma after_sending_state: "hstate (after_sending ms r) = hstate r"
  by (simp add: after_sending_def)

lemma callback_keeps:
  "exercise_kept st \<Longrightarrow> exercise_kept (hstate (handle_callback_query e reply st a))"
proof -
  assume k: "exercise_kept st"
  have g: "exercise_kept (hstate (generate_exercise e reply (st\<lparr>current_exercise := Some x\<rparr>)))" for x
    by (rule generate_exercise_keeps) (simp add: exercise_kept_def)
  consider (topic) "startswith a ''topic_''"
    | (diff) "\<not> startswith a ''topic_''" "startswith a ''diff_''"
    | (other) "\<not> startswith a ''topic_''" "\<not> startswith a ''diff_''"
    by blast
  then show ?thesis
  proof cases
    case topic
    then show ?thesis
      unfolding handle_callback_query_def using k
      by (simp add: exercise_kept_def returns_def raises_def split: list.split del: str_split1.simps)
  next
    case diff
    then show ?thesis
      unfolding handle_callback_query_def using k g
      by (auto simp: after_sending_state exercise_kept_def returns_def raises_def Let_def
          split: list.split sum.split option.split simp del: str_split1.simps)
  next
    case other
    then show ?thesis
      unfolding handle_callback_query_def using k generate_exercise_keeps [OF k, of e reply]
      by (simp add: after_sending_state exercise_kept_def returns_def raises_def Let_def split: option.split)
  qed
qed

lemma finish_keeps:
  "exercise_kept (get_user_state doc) \<Longrightarrow> exercise_kept (hstate r) \<Longrightarrow>
     exercise_kept (get_user_state (stored (finish e doc r)))"
  by (simp add: finish_def get_user_state_def split: option.split)

lemma event_keeps:
  "exercise_kept (get_user_state doc) \<Longrightarrow>
     exercise_kept (get_user_state (stored (handle_event e reply doc ev)))"
proof (cases ev)
  case (Command c)
  assume "exercise_kept (get_user_state doc)"
  then show ?thesis
    by (simp add: Command handle_event_def start_command_def mode_command_def encuesta_command_def
        get_user_state_def exercise_kept_def)
next
  case (TextMessage t)
  assume "exercise_kept (get_user_state doc)"
  then show ?thesis
    by (simp add: TextMessage handle_event_def finish_keeps text_keeps)
next
  case (ButtonPress a)
  assume "exercise_kept (get_user_state doc)"
  then show ?thesis
    by (simp add: ButtonPress handle_event_def finish_keeps callback_keeps)
qed

lemma run_keeps:
  "exercise_kept (get_user_state doc) \<Longrightarrow> exercise_kept (get_user_state (run e doc evs))"
  by (induction evs arbitrary: doc) (auto simp: event_keeps)

lemma wrong_answer_run:
  "run (demo_env True) None wrong_answer =
     Some \<lparr>bot_state = ''waiting_for_exercise_resolution'', last_asesoria_topic = None,
           current_exercise = Some [(''topic'', JStr ''Polinomios''), (''difficulty'', JInt 3),
                               (''problem'', JStr ''2+2''), (''solution'', JStr ''4'')]\<rparr>"
  by code_simp

text \<open>
  C2, as the code has it: in every record reached from the first contact by any
  sequence of updates, with any outcome of the HTTP exchanges, the exercise is present
  whenever the mode is \<open>waiting_for_exercise_difficulty\<close>,
  \<open>waiting_for_exercise_resolution\<close> or \<open>waiting_for_next_action\<close>.
\<close>

theorem exercise_present_when_reached:
  "exercise_kept (get_user_state (run e None evs))"
  by (rule run_keeps) (simp add: exercise_kept_def get_user_state_def default_state_def)


theorem exercise_present_when_reached_witness:
  "bot_state (get_user_state (run (demo_env True) None wrong_answer))
     = ''waiting_for_exercise_resolution'' \<and>
   current_exercise (get_user_state (run (demo_env True) None wrong_answer)) \<noteq> None"
proof -
  have m: "bot_state (get_user_state (run (demo_env True) None wrong_answer))
     = ''waiting_for_exercise_resolution''"
    by (simp add: wrong_answer_run get_user_state_def)
  with exercise_present_when_reached [of "demo_env True" wrong_answer]
  show ?thesis by (simp add: exercise_kept_def)
qed


text \<open>
  C2 as stated fails for \<open>waiting_for_exercise_answer\<close>: after \<open>/start\<close> the button
  \<open>resolution_retry\<close> of an earlier message sets that mode on a record with no exercise.
\<close>

theorem retry_after_start_has_no_exercise:
  "bot_state (get_user_state (run (demo_env True) None retry_after_start))
     = ''waiting_for_exercise_answer'' \<and>
   current_exercise (get_user_state (run (demo_env True) None retry_after_start)) = None"
  by code_simp

section \<open>Input the transition table has no row for\<close>

text \<open>
  C3, as the code has it: a command or a free text for which the table has no row in
  the current mode, and a button press whose action id is none of those
  \<open>handle_callback_query\<close> knows, leave the record as it was read, make no gateway call
  and raise nothing.
\<close>

theorem unmatched_input_changes_nothing:
  assumes "\<not> table_defines (bot_state (get_user_state doc)) ev"
      and "case ev of ButtonPress a \<Rightarrow> \<not> known_action a | _ \<Rightarrow> True"
  shows "get_user_state (stored (handle_event e reply doc ev)) = get_user_state doc \<and>
         calls (handle_event e reply doc ev) = [] \<and>
         raised (handle_event e reply doc ev) = None"
proof (cases ev)
  case (Command c)
  with assms(1) show ?thesis
    by (simp add: table_defines_def handle_event_def)
next
  case (TextMessage t)
  with assms(1) show ?thesis
    by (simp add: table_defines_def handle_event_def handle_text_message_def finish_def
        returns_def get_user_state_def)
next
  case (ButtonPress a)
  with assms(2) show ?thesis
    by (simp add: known_action_def handle_event_def handle_callback_query_def finish_def
        returns_def get_user_state_def)
qed

theorem unmatched_input_changes_nothing_witness:
  "get_user_state (stored (handle_event (demo_env True) HTTPStatusError None (TextMessage ''hola'')))
     = default_state \<and>
   calls (handle_event (demo_env True) HTTPStatusError None (TextMessage ''hola'')) = [] \<and>
   stored (handle_event (demo_env True) HTTPStatusError (Some exercise_given) (ButtonPress ''other''))
     = Some exercise_given"
proof -
  have 1: "\<not> table_defines (bot_state (get_user_state None)) (TextMessage ''hola'')"
    by (simp add: table_defines_def get_user_state_def default_state_def)
  have 2: "\<not> table_defines (bot_state (get_user_state (Some exercise_given))) (ButtonPress ''other'')"
    by (simp add: table_defines_def get_user_state_def exercise_given_def startswith_def)
  have 3: "\<not> known_action ''other''"
    by (simp add: known_action_def startswith_def)
  from unmatched_input_changes_nothing [OF 1, of "demo_env True" HTTPStatusError]
    unmatched_input_changes_nothing [OF 2, of "demo_env True" HTTPStatusError] 3
  show ?thesis
    by (simp add: get_user_state_def handle_event_def finish_def split: option.splits)
qed

text \<open>
  C3 as stated fails for button presses: the table has no row for \<open>resolution_retry\<close>
  or \<open>next_action_similar\<close> in mode \<open>idle\<close>, yet the first changes the mode and the
  second (on a record that holds an exercise) calls the gateway.
\<close>

theorem stale_button_changes_state:
  "\<not> table_defines (bot_state (get_user_state None)) (ButtonPress ''resolution_retry'') \<and>
   get_user_state (stored (handle_event (demo_env True) (TextContent None) None
      (ButtonPress ''resolution_retry''))) \<noteq> get_user_state None \<and>
   \<not> table_defines (bot_state (get_user_state (Some (exercise_given\<lparr>bot_state := ''idle''\<rparr>))))
      (ButtonPress ''next_action_similar'') \<and>
   calls (handle_event (demo_env True) (TextContent None)
      (Some (exercise_given\<lparr>bot_state := ''idle''\<rparr>)) (ButtonPress ''next_action_similar'')) \<noteq> []"
  by code_simp

section \<open>The pattern of a doubt: what it accepts and rejects\<close>

lemma first_some_None_iff: "first_some f xs = None \<longleftrightarrow> (\<forall>x \<in> set xs. f x = None)"
  by (induction xs) (auto split: option.split)

lemma first_some_hit: "x \<in> set xs \<Longrightarrow> f x \<noteq> None \<Longrightarrow> first_some f xs \<noteq> None"
  by (induction xs) (auto split: option.split)

lemma set_greedy: "set (greedy lo hi) = {lo..hi}"
  by (auto simp: greedy_def)

lemma lower_take: "str_lower (take n s) = take n (str_lower s)"
  by (simp add: str_lower_def take_map)

lemma lower_drop: "str_lower (drop n s) = drop n (str_lower s)"
  by (simp add: str_lower_def drop_map)

lemma lower_append: "str_lower (a @ b) = str_lower a @ str_lower b"
  by (simp add: str_lower_def)

lemma length_lower: "length (str_lower s) = length s"
  by (simp add: str_lower_def)

lemma ci_prefix_iff: "ci_prefix w s \<longleftrightarrow> prefix w (str_lower s)"
proof
  assume "ci_prefix w s"
  then have "take (length w) (str_lower s) = w"
    by (simp add: ci_prefix_def lower_take)
  then show "prefix w (str_lower s)"
    by (metis take_is_prefix)
next
  assume "prefix w (str_lower s)"
  then obtain r where r: "str_lower s = w @ r" by (auto simp: prefix_def)
  then have "length w \<le> length s"
    by (metis length_lower length_append le_add1)
  moreover from r have "take (length w) (str_lower s) = w" by simp
  ultimately show "ci_prefix w s"
    by (simp add: ci_prefix_def lower_take)
qed

lemma takeWhile_covers: "list_all P a \<Longrightarrow> length a \<le> length (takeWhile P (a @ b))"
  by (induction a) simp_all

lemma take_within_takeWhile:
  assumes "k \<le> length (takeWhile P s)"
  shows "list_all P (take k s)" and "length (take k s) = k"
proof -
  have "take k (takeWhile P s @ dropWhile P s) = take k (takeWhile P s)"
    using assms by (simp del: takeWhile_dropWhile_id)
  then have e: "take k s = take k (takeWhile P s)"
    by (simp only: takeWhile_dropWhile_id)
  have "set (take k (takeWhile P s)) \<subseteq> set (takeWhile P s)" by (rule set_take_subset)
  then have "\<forall>x \<in> set (take k (takeWhile P s)). P x"
    by (meson set_takeWhileD subsetD)
  then show "list_all P (take k s)" unfolding e by (simp add: list_all_iff)
  show "length (take k s) = k" unfolding e using assms by simp
qed

text \<open>Every text of the written-out form is matched.\<close>

lemma m_word_accepts:
  assumes "str_lower w \<in> set difficulty_words"
  shows "m_word (w @ rest) \<noteq> None"
proof -
  have "ci_prefix (str_lower w) (w @ rest)"
    by (simp add: ci_prefix_iff lower_append)
  with assms show ?thesis
    unfolding m_word_def first_some_None_iff by auto
qed

lemma m_ws_star_accepts:
  assumes "list_all isspace ws2" and "str_lower w \<in> set difficulty_words"
  shows "m_ws_star (ws2 @ w @ post) \<noteq> None"
proof -
  let ?s = "ws2 @ w @ post"
  have mem: "length ws2 \<in> set (greedy 0 (length (takeWhile isspace ?s)))"
    using takeWhile_covers [OF assms(1)] by (simp add: set_greedy)
  have hit: "m_word (drop (length ws2) ?s) \<noteq> None"
    using m_word_accepts [OF assms(2)] by simp
  show ?thesis
    unfolding m_ws_star_def
    using first_some_hit [where f = "\<lambda>k. m_word (drop k ?s)", OF mem] hit by blast
qed

lemma m_nivel_accepts:
  assumes "str_lower nv = ''nivel''" and "list_all isspace ws2"
    and "str_lower w \<in> set difficulty_words"
  shows "m_nivel (nv @ ws2 @ w @ post) \<noteq> None"
proof -
  have "length (str_lower nv) = 5" unfolding assms(1) by simp
  then have l: "length nv = 5" by (simp only: length_lower)
  have "prefix ''nivel'' (str_lower (nv @ ws2 @ w @ post))"
    unfolding lower_append assms(1) by (rule prefixI) (rule refl)
  then have p: "ci_prefix ''nivel'' (nv @ ws2 @ w @ post)"
    by (simp only: ci_prefix_iff)
  have "drop 5 (nv @ ws2 @ w @ post) = ws2 @ w @ post"
    using l by simp
  with p m_ws_star_accepts [OF assms(2,3), of post] show ?thesis
    unfolding m_nivel_def by (simp only: if_True not_False_eq_True)
qed

lemma m_ws_plus_accepts:
  assumes "ws1 \<noteq> []" and "list_all isspace ws1"
    and "str_lower nv = ''nivel''" and "list_all isspace ws2"
    and "str_lower w \<in> set difficulty_words"
  shows "m_ws_plus (ws1 @ nv @ ws2 @ w @ post) \<noteq> None"
proof -
  let ?s = "ws1 @ nv @ ws2 @ w @ post"
  from assms(1) have "1 \<le> length ws1" by (cases ws1) simp_all
  then have mem: "length ws1 \<in> set (greedy 1 (length (takeWhile isspace ?s)))"
    using takeWhile_covers [OF assms(2)] by (simp add: set_greedy)
  have "drop (length ws1) ?s = nv @ ws2 @ w @ post" by simp
  then have hit: "m_nivel (drop (length ws1) ?s) \<noteq> None"
    using m_nivel_accepts [OF assms(3-5), of post] by (simp only: not_False_eq_True)
  show ?thesis
    unfolding m_ws_plus_def
    using first_some_hit [where f = "\<lambda>k. m_nivel (drop k ?s)", OF mem] hit by blast
qed

lemma m_dot_plus_accepts:
  assumes "g \<noteq> []" and "list_all (\<lambda>c. c \<noteq> NL) g"
    and "ws1 \<noteq> []" and "list_all isspace ws1"
    and "str_lower nv = ''nivel''" and "list_all isspace ws2"
    and "str_lower w \<in> set difficulty_words"
  shows "m_dot_plus (g @ ws1 @ nv @ ws2 @ w @ post) \<noteq> None"
proof -
  let ?s = "g @ ws1 @ nv @ ws2 @ w @ post"
  from assms(1) have "1 \<le> length g" by (cases g) simp_all
  then have mem: "length g \<in> set (greedy 1 (length (takeWhile (\<lambda>c. c \<noteq> NL) ?s)))"
    using takeWhile_covers [OF assms(2)] by (simp add: set_greedy)
  have "drop (length g) ?s = ws1 @ nv @ ws2 @ w @ post" by simp
  then have "m_ws_plus (drop (length g) ?s) \<noteq> None"
    using m_ws_plus_accepts [OF assms(3-7), of post] by (simp only: not_False_eq_True)
  then have hit: "map_option (Pair (take (length g) ?s)) (m_ws_plus (drop (length g) ?s)) \<noteq> None"
    by simp
  show ?thesis
    unfolding m_dot_plus_def
    using first_some_hit [where f = "\<lambda>j. map_option (Pair (take j ?s)) (m_ws_plus (drop j ?s))",
        OF mem] hit by blast
qed

lemma re_search_complete:
  assumes "matches_pattern s"
  shows "re_search s \<noteq> None"
proof -
  from assms obtain pre g ws1 nv ws2 w post where
    s: "s = pre @ g @ ws1 @ nv @ ws2 @ w @ post" and
    p: "g \<noteq> []" "list_all (\<lambda>c. c \<noteq> NL) g" "ws1 \<noteq> []" "list_all isspace ws1"
       "str_lower nv = ''nivel''" "list_all isspace ws2" "str_lower w \<in> set difficulty_words"
    unfolding matches_pattern_def by blast
  have mem: "length pre \<in> set [0 ..< Suc (length s)]"
    unfolding s by simp
  have "drop (length pre) s = g @ ws1 @ nv @ ws2 @ w @ post"
    unfolding s by simp
  then have hit: "m_dot_plus (drop (length pre) s) \<noteq> None"
    using m_dot_plus_accepts [OF p, of post] by (simp only: not_False_eq_True)
  show ?thesis
    unfolding re_search_def
    using first_some_hit [where f = "\<lambda>i. m_dot_plus (drop i s)", OF mem] hit by blast
qed

text \<open>Every match has the written-out form.\<close>

lemma m_word_D: "m_word s \<noteq> None \<Longrightarrow> \<exists>w \<in> set difficulty_words. ci_prefix w s"
  unfolding m_word_def first_some_None_iff by (auto split: if_splits)

lemma m_ws_star_D:
  "m_ws_star s \<noteq> None \<Longrightarrow> \<exists>k. k \<le> length (takeWhile isspace s) \<and> m_word (drop k s) \<noteq> None"
  unfolding m_ws_star_def first_some_None_iff set_greedy by auto

lemma m_nivel_D: "m_nivel s \<noteq> None \<Longrightarrow> ci_prefix ''nivel'' s \<and> m_ws_star (drop 5 s) \<noteq> None"
  unfolding m_nivel_def by (simp split: if_splits)

lemma m_ws_plus_D:
  "m_ws_plus s \<noteq> None \<Longrightarrow>
     \<exists>k. 1 \<le> k \<and> k \<le> length (takeWhile isspace s) \<and> m_nivel (drop k s) \<noteq> None"
  unfolding m_ws_plus_def first_some_None_iff set_greedy by auto

lemma m_dot_plus_D:
  "m_dot_plus s \<noteq> None \<Longrightarrow>
     \<exists>j. 1 \<le> j \<and> j \<le> length (takeWhile (\<lambda>c. c \<noteq> NL) s) \<and> m_ws_plus (drop j s) \<noteq> None"
  unfolding m_dot_plus_def first_some_None_iff set_greedy by auto

lemma re_search_D: "re_search t \<noteq> None \<Longrightarrow> \<exists>i. m_dot_plus (drop i t) \<noteq> None"
  unfolding re_search_def first_some_None_iff by blast

lemma m_word_form:
  assumes "m_word s \<noteq> None"
  shows "\<exists>w post. s = w @ post \<and> str_lower w \<in> set difficulty_words"
proof -
  from m_word_D [OF assms] obtain w0 where w0: "w0 \<in> set difficulty_words" "ci_prefix w0 s"
    by blast
  from w0(2) have "str_lower (take (length w0) s) = w0" by (simp add: ci_prefix_def)
  with w0(1) have "str_lower (take (length w0) s) \<in> set difficulty_words" by simp
  moreover have "s = take (length w0) s @ drop (length w0) s" by simp
  ultimately show ?thesis by blast
qed

lemma m_ws_star_form:
  assumes "m_ws_star s \<noteq> None"
  shows "\<exists>ws2 w post. s = ws2 @ w @ post \<and> list_all isspace ws2 \<and>
           str_lower w \<in> set difficulty_words"
proof -
  from m_ws_star_D [OF assms] obtain k
    where k: "k \<le> length (takeWhile isspace s)" "m_word (drop k s) \<noteq> None" by blast
  from m_word_form [OF k(2)] obtain w post
    where w: "drop k s = w @ post" "str_lower w \<in> set difficulty_words" by blast
  have "s = take k s @ drop k s" by simp
  then have "s = take k s @ w @ post" unfolding w(1) .
  with take_within_takeWhile(1) [OF k(1)] w(2) show ?thesis by blast
qed

lemma m_nivel_form:
  assumes "m_nivel s \<noteq> None"
  shows "\<exists>nv ws2 w post. s = nv @ ws2 @ w @ post \<and> str_lower nv = ''nivel'' \<and>
           list_all isspace ws2 \<and> str_lower w \<in> set difficulty_words"
proof -
  from m_nivel_D [OF assms]
  have p: "ci_prefix ''nivel'' s" and m: "m_ws_star (drop 5 s) \<noteq> None" by blast+
  from m_ws_star_form [OF m] obtain ws2 w post
    where w: "drop 5 s = ws2 @ w @ post" "list_all isspace ws2"
      "str_lower w \<in> set difficulty_words" by blast
  have "length ''nivel'' = 5" by simp
  moreover from p have "str_lower (take (length ''nivel'') s) = ''nivel''"
    by (simp only: ci_prefix_def)
  ultimately have n: "str_lower (take 5 s) = ''nivel''" by (simp only:)
  have "s = take 5 s @ drop 5 s" by simp
  then have "s = take 5 s @ ws2 @ w @ post" unfolding w(1) .
  with n w(2,3) show ?thesis by blast
qed

lemma m_ws_plus_form:
  assumes "m_ws_plus s \<noteq> None"
  shows "\<exists>ws1 nv ws2 w post. s = ws1 @ nv @ ws2 @ w @ post \<and> ws1 \<noteq> [] \<and>
           list_all isspace ws1 \<and> str_lower nv = ''nivel'' \<and>
           list_all isspace ws2 \<and> str_lower w \<in> set difficulty_words"
proof -
  from m_ws_plus_D [OF assms] obtain k
    where k: "1 \<le> k" "k \<le> length (takeWhile isspace s)" "m_nivel (drop k s) \<noteq> None" by blast
  from m_nivel_form [OF k(3)] obtain nv ws2 w post
    where w: "drop k s = nv @ ws2 @ w @ post" "str_lower nv = ''nivel''"
      "list_all isspace ws2" "str_lower w \<in> set difficulty_words" by blast
  have "s = take k s @ drop k s" by simp
  then have s: "s = take k s @ nv @ ws2 @ w @ post" unfolding w(1) .
  from take_within_takeWhile(2) [OF k(2)] k(1) have "take k s \<noteq> []" by auto
  with s take_within_takeWhile(1) [OF k(2)] w(2-4) show ?thesis by blast
qed

lemma m_dot_plus_form:
  assumes "m_dot_plus s \<noteq> None"
  shows "\<exists>g ws1 nv ws2 w post. s = g @ ws1 @ nv @ ws2 @ w @ post \<and>
           g \<noteq> [] \<and> list_all (\<lambda>c. c \<noteq> NL) g \<and> ws1 \<noteq> [] \<and>
           list_all isspace ws1 \<and> str_lower nv = ''nivel'' \<and>
           list_all isspace ws2 \<and> str_lower w \<in> set difficulty_words"
proof -
  from m_dot_plus_D [OF assms] obtain j
    where j: "1 \<le> j" "j \<le> length (takeWhile (\<lambda>c. c \<noteq> NL) s)" "m_ws_plus (drop j s) \<noteq> None"
    by blast
  from m_ws_plus_form [OF j(3)] obtain ws1 nv ws2 w post
    where w: "drop j s = ws1 @ nv @ ws2 @ w @ post" "ws1 \<noteq> []" "list_all isspace ws1"
      "str_lower nv = ''nivel''" "list_all isspace ws2" "str_lower w \<in> set difficulty_words"
    by blast
  have "s = take j s @ drop j s" by simp
  then have s: "s = take j s @ ws1 @ nv @ ws2 @ w @ post" unfolding w(1) .
  from take_within_takeWhile(2) [OF j(2)] j(1) have "take j s \<noteq> []" by auto
  with s take_within_takeWhile(1) [OF j(2)] w(2-6) show ?thesis by blast
qed

lemma re_search_sound:
  assumes "re_search s \<noteq> None"
  shows "matches_pattern s"
proof -
  from re_search_D [OF assms] obtain i where "m_dot_plus (drop i s) \<noteq> None" ..
  from m_dot_plus_form [OF this] obtain g ws1 nv ws2 w post
    where w: "drop i s = g @ ws1 @ nv @ ws2 @ w @ post" "g \<noteq> []" "list_all (\<lambda>c. c \<noteq> NL) g"
      "ws1 \<noteq> []" "list_all isspace ws1"
      "str_lower nv = ''nivel''" "list_all isspace ws2" "str_lower w \<in> set difficulty_words"
    by blast
  have "s = take i s @ drop i s" by simp
  then have "s = take i s @ g @ ws1 @ nv @ ws2 @ w @ post" unfolding w(1) .
  with w(2-8) show ?thesis unfolding matches_pattern_def by blast
qed

lemma re_search_iff: "re_search s \<noteq> None \<longleftrightarrow> matches_pattern s"
  using re_search_sound re_search_complete by blast

text \<open>What follows a match does not undo it.\<close>

lemma matches_append:
  assumes "matches_pattern t"
  shows "matches_pattern (t @ r)"
proof -
  from assms obtain pre g ws1 nv ws2 w post where
    s: "t = pre @ g @ ws1 @ nv @ ws2 @ w @ post" and
    p: "g \<noteq> []" "list_all (\<lambda>c. c \<noteq> NL) g" "ws1 \<noteq> []" "list_all isspace ws1"
       "str_lower nv = ''nivel''" "list_all isspace ws2" "str_lower w \<in> set difficulty_words"
    unfolding matches_pattern_def by blast
  from s have "t @ r = pre @ g @ ws1 @ nv @ ws2 @ w @ (post @ r)" by simp
  with p show ?thesis unfolding matches_pattern_def by blast
qed

lemma prefix_straddle:
  assumes "prefix p (a @ x # b)" and "length a < length p"
  shows "x \<in> set p"
proof -
  from assms(1) obtain r where "a @ x # b = p @ r" by (auto simp: prefix_def)
  then have "(p @ r) ! length a = x" by (metis nth_append_length)
  with assms(2) have "p ! length a = x" by (simp add: nth_append)
  with assms(2) show ?thesis by (metis nth_mem)
qed

text \<open>
  The end " nivel r_pido" holds no difficulty word, and no difficulty word has a
  blank in it: a match in a text with this end lies before the end.
\<close>

lemma rapido_facts:
  "str_lower nivel_rapido = nivel_rapido"
  "length nivel_rapido = 13"
  "nivel_rapido = CHR '' '' # tl nivel_rapido"
  "list_all (\<lambda>d. list_all (\<lambda>w. \<not> prefix w (drop d nivel_rapido)) difficulty_words) [0 ..< 14]"
  "list_all (\<lambda>w. CHR '' '' \<notin> set w \<and> w \<noteq> []) difficulty_words"
  by code_simp+

lemma word_not_at_end:
  assumes "lw \<in> set difficulty_words"
  shows "\<not> prefix lw (drop d nivel_rapido)"
proof (cases "d < 14")
  case True
  then have "d \<in> set [0 ..< 14]" by (simp only: set_upt atLeastLessThan_iff le0 simp_thms)
  with rapido_facts(4) assms show ?thesis
    unfolding list_all_iff by blast
next
  case False
  then have "drop d nivel_rapido = []" by (simp add: rapido_facts(2))
  moreover from rapido_facts(5) assms have "lw \<noteq> []"
    unfolding list_all_iff by blast
  ultimately show ?thesis by simp
qed

lemma matches_before_rapido:
  assumes "matches_pattern (t @ nivel_rapido)"
  shows "matches_pattern t"
proof -
  from assms obtain pre g ws1 nv ws2 w post where
    s: "t @ nivel_rapido = pre @ g @ ws1 @ nv @ ws2 @ w @ post" and
    p: "g \<noteq> []" "list_all (\<lambda>c. c \<noteq> NL) g" "ws1 \<noteq> []" "list_all isspace ws1"
       "str_lower nv = ''nivel''" "list_all isspace ws2" "str_lower w \<in> set difficulty_words"
    unfolding matches_pattern_def by blast
  define a where "a = pre @ g @ ws1 @ nv @ ws2"
  define lw where "lw = str_lower w"
  have lw: "lw \<in> set difficulty_words" using p(7) by (simp add: lw_def)
  from s have e: "t @ nivel_rapido = a @ w @ post" by (simp add: a_def)
  have "drop (length a) (t @ nivel_rapido) = w @ post" unfolding e by simp
  then have "drop (length a) t @ drop (length a - length t) nivel_rapido = w @ post"
    by simp
  then have "str_lower (drop (length a) t @ drop (length a - length t) nivel_rapido)
               = str_lower (w @ post)"
    by (simp only:)
  then have "str_lower (drop (length a) t) @ drop (length a - length t) nivel_rapido
               = lw @ str_lower post"
    by (simp only: lower_append lower_drop rapido_facts(1) lw_def)
  then have pf: "prefix lw (str_lower (drop (length a) t) @ drop (length a - length t) nivel_rapido)"
    by (simp only: prefixI)
  have fits: "length a + length w \<le> length t"
  proof (rule ccontr)
    assume "\<not> length a + length w \<le> length t"
    then have over: "length t < length a + length w" by simp
    show False
    proof (cases "length t \<le> length a")
      case True
      then have "drop (length a) t = []" by simp
      with pf have "prefix lw (drop (length a - length t) nivel_rapido)"
        by (simp add: str_lower_def)
      with word_not_at_end [OF lw] show False by blast
    next
      case False
      then have "length a - length t = 0" by simp
      then have "drop (length a - length t) nivel_rapido = CHR '' '' # tl nivel_rapido"
        using rapido_facts(3) by simp
      with pf have pf': "prefix lw (str_lower (drop (length a) t) @ CHR '' '' # tl nivel_rapido)"
        by (simp only:)
      from over False have "length (str_lower (drop (length a) t)) < length lw"
        by (simp add: length_lower lw_def)
      from prefix_straddle [OF pf' this] have "CHR '' '' \<in> set lw" .
      moreover from rapido_facts(5) lw have "CHR '' '' \<notin> set lw"
        unfolding list_all_iff by blast
      ultimately show False by blast
    qed
  qed
  have "take (length a + length w) (t @ nivel_rapido) = a @ w"
    unfolding e by simp
  with fits have "take (length a + length w) t = a @ w" by simp
  then have "t = (a @ w) @ drop (length a + length w) t"
    by (metis append_take_drop_id)
  then have "t = pre @ g @ ws1 @ nv @ ws2 @ w @ drop (length a + length w) t"
    by (simp add: a_def)
  with p show ?thesis unfolding matches_pattern_def by blast
qed

lemma rapido_rejected_iff: "re_search (t @ nivel_rapido) = None \<longleftrightarrow> re_search t = None"
  using re_search_iff [of t] re_search_iff [of "t @ nivel_rapido"]
    matches_append [of t nivel_rapido] matches_before_rapido [of t]
  by blast

text \<open>
  In " nivel " followed by a difficulty word, "nivel" stands at one place only, and the
  blank before it is where the white space of the pattern begins: the character that
  \<open>(.+)\<close> needs has to come before.
\<close>

lemma nivel_once:
  "list_all (\<lambda>lw. length lw \<le> 10 \<and>
      list_all (\<lambda>d. \<not> prefix ''nivel'' (drop d ('' nivel '' @ lw))) [2 ..< 18])
    difficulty_words"
  by code_simp

lemma nivel_not_later:
  assumes "lw \<in> set difficulty_words" and "2 \<le> d"
  shows "\<not> prefix ''nivel'' (drop d ('' nivel '' @ lw))"
proof (cases "d < 18")
  case True
  with assms(2) have "d \<in> set [2 ..< 18]" by (simp only: set_upt atLeastLessThan_iff simp_thms)
  with nivel_once assms(1) show ?thesis
    unfolding list_all_iff by blast
next
  case False
  from nivel_once assms(1) have "length lw \<le> 10"
    unfolding list_all_iff by blast
  with False have "drop d ('' nivel '' @ lw) = []" by simp
  then show ?thesis by simp
qed

lemma needs_a_character:
  assumes "matches_pattern (t @ '' nivel '' @ w)" and "str_lower w \<in> set difficulty_words"
  shows "\<exists>c \<in> set t. c \<noteq> NL"
proof (rule ccontr)
  assume "\<not> (\<exists>c \<in> set t. c \<noteq> NL)"
  then have allnl: "\<forall>c \<in> set t. c = NL" by blast
  define X where "X = '' nivel '' @ w"
  from assms(1) obtain pre g ws1 nv ws2 w' post where
    s: "t @ X = pre @ g @ ws1 @ nv @ ws2 @ w' @ post" and
    p: "g \<noteq> []" "list_all (\<lambda>c. c \<noteq> NL) g" "ws1 \<noteq> []" "str_lower nv = ''nivel''"
    unfolding matches_pattern_def X_def by blast
  from p(1) obtain g' c where g: "g = g' @ [c]" by (cases g rule: rev_cases) simp_all
  from p(2) have c: "c \<noteq> NL" by (simp add: g)
  define b where "b = pre @ g'"
  define rest where "rest = ws2 @ w' @ post"
  from s have e: "t @ X = b @ c # ws1 @ nv @ rest"
    by (simp add: g b_def rest_def)
  have le: "length t \<le> length b"
  proof (rule ccontr)
    assume "\<not> length t \<le> length b"
    then have lt: "length b < length t" by simp
    have "(t @ X) ! length b = c" unfolding e by simp
    with lt have "t ! length b = c" by (simp add: nth_append)
    with lt have "c \<in> set t" by (metis nth_mem)
    with allnl c show False by blast
  qed
  define n where "n = length b + 1 + length ws1"
  define d where "d = n - length t"
  from p(3) have "1 \<le> length ws1" by (cases ws1) simp_all
  with le have d2: "2 \<le> d" and nt: "length t \<le> n" by (simp_all add: d_def n_def)
  have "drop n (t @ X) = nv @ rest" unfolding e n_def by simp
  with nt have "drop d X = nv @ rest" by (simp add: d_def)
  then have "str_lower (drop d X) = str_lower (nv @ rest)" by (simp only:)
  then have "drop d (str_lower X) = ''nivel'' @ str_lower rest"
    by (simp only: lower_drop lower_append p(4))
  moreover have "str_lower '' nivel '' = '' nivel ''" by code_simp
  then have "str_lower X = '' nivel '' @ str_lower w"
    by (simp only: X_def lower_append)
  ultimately have "prefix ''nivel'' (drop d ('' nivel '' @ str_lower w))"
    by (simp only: prefixI)
  with nivel_not_later [OF assms(2) d2] show False by blast
qed

lemma matches_patternI:
  assumes "s = pre @ g @ ws1 @ nv @ ws2 @ w @ post"
    and "g \<noteq> []" and "list_all (\<lambda>c. c \<noteq> NL) g"
    and "ws1 \<noteq> []" and "list_all isspace ws1"
    and "str_lower nv = ''nivel''" and "list_all isspace ws2"
    and "str_lower w \<in> set difficulty_words"
  shows "matches_pattern s"
  unfolding matches_pattern_def using assms by blast

lemma word_accepted_iff:
  assumes "str_lower w \<in> set difficulty_words"
  shows "re_search (t @ '' nivel '' @ w) \<noteq> None \<longleftrightarrow> (\<exists>c \<in> set t. c \<noteq> NL)"
proof
  assume "re_search (t @ '' nivel '' @ w) \<noteq> None"
  then have "matches_pattern (t @ '' nivel '' @ w)" by (simp only: re_search_iff)
  from needs_a_character [OF this assms] show "\<exists>c \<in> set t. c \<noteq> NL" .
next
  assume "\<exists>c \<in> set t. c \<noteq> NL"
  from split_list_last_prop [OF this]
  obtain t1 c t2 where t: "t = t1 @ c # t2" "c \<noteq> NL" "\<forall>x \<in> set t2. \<not> x \<noteq> NL"
    by blast
  have sp: "isspace (CHR '' '')" "isspace NL" by (simp_all add: isspace_def NL_def)
  from t(3) sp(2) have "\<forall>x \<in> set t2. isspace x" by auto
  with sp(1) have ws: "list_all isspace (t2 @ '' '')"
    by (simp add: list_all_iff)
  have nv: "str_lower ''nivel'' = ''nivel''" by code_simp
  have "matches_pattern (t @ '' nivel '' @ w)"
  proof (rule matches_patternI [where pre = t1 and g = "[c]" and ?ws1.0 = "t2 @ '' ''"
        and nv = "''nivel''" and ?ws2.0 = "'' ''" and w = w and post = "[]"])
    show "t @ '' nivel '' @ w = t1 @ [c] @ (t2 @ '' '') @ ''nivel'' @ '' '' @ w @ []"
      unfolding t(1) by simp
    show "[c] \<noteq> []" by simp
    show "list_all (\<lambda>c. c \<noteq> NL) [c]" using t(2) by simp
    show "t2 @ '' '' \<noteq> []" by simp
    show "list_all isspace (t2 @ '' '')" by (rule ws)
    show "str_lower ''nivel'' = ''nivel''" by (rule nv)
    show "list_all isspace '' ''" using sp(1) by simp
    show "str_lower w \<in> set difficulty_words" by (rule assms)
  qed
  then show "re_search (t @ '' nivel '' @ w) \<noteq> None" by (simp only: re_search_iff)
qed

lemma doubt_rejected:
  assumes "bot_state st = ''waiting_for_doubt''" "re_search text = None"
  shows "handle_event e reply (Some st) (TextMessage text) =
           \<lparr>stored = Some st, sent = [FormatError], calls = [], raised = None\<rparr>"
  using assms
  by (simp add: handle_event_def handle_text_message_def get_user_state_def finish_def returns_def)

text \<open>
  C6: a text \<open>t nivel w\<close>, where \<open>w\<close> is one of the three difficulty words in any mix
  of upper and lower case, is accepted by the pattern exactly when \<open>t\<close> has a
  character other than a newline (the group \<open>(.+)\<close> needs one). A text
  \<open>t nivel r_pido\<close> (with U+00E1) is rejected exactly when the pattern finds nothing
  in \<open>t\<close> itself. In mode \<open>waiting_for_doubt\<close> a text the pattern rejects gets the
  format-error message, the record stays as it was and no gateway call is made.
\<close>

theorem doubt_pattern:
  "(str_lower w \<in> {facil, ''intermedio'', ''avanzado''} \<longrightarrow>
      (re_search (t @ '' nivel '' @ w) \<noteq> None \<longleftrightarrow> (\<exists>c \<in> set t. c \<noteq> NL))) \<and>
   (re_search (t @ nivel_rapido) = None \<longleftrightarrow> re_search t = None) \<and>
   (bot_state st = ''waiting_for_doubt'' \<and> re_search text = None \<longrightarrow>
      handle_event e reply (Some st) (TextMessage text) =
        \<lparr>stored = Some st, sent = [FormatError], calls = [], raised = None\<rparr>)"
proof -
  have "re_search (t @ '' nivel '' @ w) \<noteq> None \<longleftrightarrow> (\<exists>c \<in> set t. c \<noteq> NL)"
    if "str_lower w \<in> {facil, ''intermedio'', ''avanzado''}"
    using that by (intro word_accepted_iff) (simp add: difficulty_words_def)
  then show ?thesis
    using rapido_rejected_iff [of t] doubt_rejected [of st _ e reply]
    by blast
qed

theorem doubt_pattern_witness:
  "re_search (''Derivadas'' @ '' nivel '' @ facil) \<noteq> None \<and>
   re_search (''Derivadas'' @ '' nivel '' @ ''Intermedio'') \<noteq> None \<and>
   re_search (''Derivadas'' @ '' nivel '' @ ''AVANZADO'') \<noteq> None \<and>
   re_search (''Derivadas'' @ nivel_rapido) = None \<and>
   handle_event (demo_env True) HTTPStatusError (Some doubt_asked)
       (TextMessage (''Derivadas'' @ nivel_rapido)) =
     \<lparr>stored = Some doubt_asked, sent = [FormatError], calls = [], raised = None\<rparr>"
proof -
  have t: "\<exists>c \<in> set ''Derivadas''. c \<noteq> NL" by (simp add: NL_def)
  have "str_lower facil = facil" "str_lower ''Intermedio'' = ''intermedio''"
    "str_lower ''AVANZADO'' = ''avanzado''"
    by code_simp+
  then have w: "str_lower facil \<in> {facil, ''intermedio'', ''avanzado''}"
    "str_lower ''Intermedio'' \<in> {facil, ''intermedio'', ''avanzado''}"
    "str_lower ''AVANZADO'' \<in> {facil, ''intermedio'', ''avanzado''}"
    by (simp_all only: insert_iff simp_thms)
  have n: "re_search ''Derivadas'' = None" by code_simp
  have m: "bot_state doubt_asked = ''waiting_for_doubt''" by (simp add: doubt_asked_def)
  have a1: "re_search (''Derivadas'' @ '' nivel '' @ facil) \<noteq> None"
    using doubt_pattern [of facil "''Derivadas''", THEN conjunct1] t w(1) by blast
  have a2: "re_search (''Derivadas'' @ '' nivel '' @ ''Intermedio'') \<noteq> None"
    using doubt_pattern [of "''Intermedio''" "''Derivadas''", THEN conjunct1] t w(2) by blast
  have a3: "re_search (''Derivadas'' @ '' nivel '' @ ''AVANZADO'') \<noteq> None"
    using doubt_pattern [of "''AVANZADO''" "''Derivadas''", THEN conjunct1] t w(3) by blast
  have r: "re_search (''Derivadas'' @ nivel_rapido) = None"
    using doubt_pattern [of _ "''Derivadas''", THEN conjunct2, THEN conjunct1] n by blast
  have f: "handle_event (demo_env True) HTTPStatusError (Some doubt_asked)
       (TextMessage (''Derivadas'' @ nivel_rapido)) =
     \<lparr>stored = Some doubt_asked, sent = [FormatError], calls = [], raised = None\<rparr>"
    using doubt_pattern [of _ _ doubt_asked _ "demo_env True" HTTPStatusError,
        THEN conjunct2, THEN conjunct2] m r by blast
  from a1 a2 a3 r f show ?thesis by (intro conjI)
qed

text \<open>
  The claim as written fails twice. A text that names a known level before it asks for
  an unknown one is accepted, with the words before the first "nivel" as the doubt: in
  mode \<open>waiting_for_doubt\<close> the gateway is asked and no format-error message is sent.
  And " nivel f_cil" with nothing before it is rejected.
\<close>

theorem earlier_level_is_read:
  "re_search (''a nivel '' @ facil @ '' b'' @ nivel_rapido) = Some (''a'', facil) \<and>
   calls (handle_event (demo_env True) HTTPStatusError (Some doubt_asked)
            (TextMessage (''a nivel '' @ facil @ '' b'' @ nivel_rapido))) \<noteq> [] \<and>
   FormatError \<notin> set (sent (handle_event (demo_env True) HTTPStatusError (Some doubt_asked)
            (TextMessage (''a nivel '' @ facil @ '' b'' @ nivel_rapido)))) \<and>
   re_search ('' nivel '' @ facil) = None \<and>
   sent (handle_event (demo_env True) HTTPStatusError (Some doubt_asked)
            (TextMessage ('' nivel '' @ facil))) = [FormatError]"
  by code_simp

section \<open>Splitting a long message\<close>

lemma join_lines_snoc: "cb \<noteq> [] \<Longrightarrow> join_lines (cb @ [l]) = join_lines cb @ NL # l"
  by (induction cb rule: join_lines.induct) simp_all

lemma pack_lines_blocks:
  "cb \<noteq> [] \<Longrightarrow>
     \<exists>blocks. concat blocks = cb @ ls \<and> [] \<notin> set blocks \<and>
       pack_lines parts (join_lines cb) ls = parts @ map join_lines blocks"
proof (induction ls arbitrary: parts cb)
  case Nil
  then have "concat [cb] = cb @ [] \<and> [] \<notin> set [cb] \<and>
       pack_lines parts (join_lines cb) [] = parts @ map join_lines [cb]"
    by simp
  then show ?case by blast
next
  case (Cons line ls)
  show ?case
  proof (cases "length (join_lines cb) + length line + 1 > MAX_LENGTH")
    case True
    from Cons.IH [of "[line]" "parts @ [join_lines cb]"]
    obtain blocks where b: "concat blocks = [line] @ ls" "[] \<notin> set blocks"
      "pack_lines (parts @ [join_lines cb]) (join_lines [line]) ls
         = (parts @ [join_lines cb]) @ map join_lines blocks"
      by auto
    from b Cons.prems True
    have "concat (cb # blocks) = cb @ line # ls \<and> [] \<notin> set (cb # blocks) \<and>
       pack_lines parts (join_lines cb) (line # ls) = parts @ map join_lines (cb # blocks)"
      by simp
    then show ?thesis by blast
  next
    case False
    from Cons.IH [of "cb @ [line]" parts]
    obtain blocks where b: "concat blocks = (cb @ [line]) @ ls" "[] \<notin> set blocks"
      "pack_lines parts (join_lines (cb @ [line])) ls = parts @ map join_lines blocks"
      by auto
    from b Cons.prems False
    have "concat blocks = cb @ line # ls \<and> [] \<notin> set blocks \<and>
       pack_lines parts (join_lines cb) (line # ls) = parts @ map join_lines blocks"
      by (simp add: join_lines_snoc)
    then show ?thesis by blast
  qed
qed

lemma pack_lines_lengths:
  "\<forall>p \<in> set parts. length p \<le> MAX_LENGTH \<Longrightarrow> length cur \<le> MAX_LENGTH \<Longrightarrow>
   \<forall>l \<in> set ls. length l \<le> MAX_LENGTH \<Longrightarrow>
     \<forall>p \<in> set (pack_lines parts cur ls). length p \<le> MAX_LENGTH"
proof (induction ls arbitrary: parts cur)
  case Nil
  then show ?case by simp
next
  case (Cons line ls)
  show ?case
  proof (cases "length cur + length line + 1 > MAX_LENGTH")
    case True
    have "\<forall>p \<in> set (pack_lines (parts @ [cur]) line ls). length p \<le> MAX_LENGTH"
      using Cons.prems by (intro Cons.IH) simp_all
    with True show ?thesis by simp
  next
    case False
    have "\<forall>p \<in> set (pack_lines parts (cur @ NL # line) ls). length p \<le> MAX_LENGTH"
      using Cons.prems False by (intro Cons.IH) simp_all
    with False show ?thesis by simp
  qed
qed

lemma length_strip_le: "length (str_strip s) \<le> length s"
proof -
  have "length (str_strip s) \<le> length (dropWhile isspace s)"
    unfolding str_strip_def by (metis length_dropWhile_le length_rev)
  also have "\<dots> \<le> length s" by (rule length_dropWhile_le)
  finally show ?thesis .
qed

lemma strip_has_char: "str_strip s \<noteq> [] \<Longrightarrow> \<exists>x \<in> set (str_strip s). \<not> isspace x"
proof -
  assume a: "str_strip s \<noteq> []"
  define u where "u = dropWhile isspace (rev (dropWhile isspace s))"
  from a have "u \<noteq> []" by (simp add: str_strip_def u_def)
  then have "\<not> isspace (hd u)" unfolding u_def by (rule hd_dropWhile)
  moreover from \<open>u \<noteq> []\<close> have "hd u \<in> set (str_strip s)"
    by (simp add: str_strip_def u_def [symmetric])
  ultimately show ?thesis by blast
qed

lemma split_nonempty: "str_split c s \<noteq> []"
  by (induction s) (auto split: list.split)

lemma split_cons_other:
  "x \<noteq> c \<Longrightarrow> str_split c (x # s) = (x # hd (str_split c s)) # tl (str_split c s)"
  using split_nonempty [of c s] by (cases "str_split c s") simp_all

lemma strip_Nil: "str_strip [] = []"
  by (simp add: str_strip_def)

lemma strip_cons_space: "isspace x \<Longrightarrow> str_strip (x # l) = str_strip l"
  by (simp add: str_strip_def)

lemma strip_snoc_space:
  assumes "isspace x"
  shows "str_strip (l @ [x]) = str_strip l"
proof (cases "\<forall>y \<in> set l. isspace y")
  case True
  then have e: "dropWhile isspace l = []" by simp
  from True assms have "dropWhile isspace (l @ [x]) = []" by simp
  then show ?thesis unfolding str_strip_def e by simp
next
  case False
  then have "dropWhile isspace (l @ [x]) = dropWhile isspace l @ [x]"
    by (simp add: dropWhile_append)
  with assms show ?thesis unfolding str_strip_def by simp
qed

lemma kept_cons_space:
  assumes "isspace x"
  shows "stripped_nonblank (str_split NL (x # s)) = stripped_nonblank (str_split NL s)"
proof (cases "x = NL")
  case True
  then show ?thesis by (simp add: stripped_nonblank_def nonblank_def strip_Nil)
next
  case False
  obtain h t where ht: "str_split NL s = h # t"
    using split_nonempty [of NL s] by (cases "str_split NL s") auto
  with False assms show ?thesis
    by (simp add: stripped_nonblank_def nonblank_def strip_cons_space)
qed

lemma kept_lstrip:
  "stripped_nonblank (str_split NL (dropWhile isspace s)) = stripped_nonblank (str_split NL s)"
proof (induction s)
  case Nil
  show ?case by simp
next
  case (Cons x s)
  show ?case
  proof (cases "isspace x")
    case True
    with Cons kept_cons_space [OF True, of s] show ?thesis by simp
  next
    case False
    then show ?thesis by simp
  qed
qed

lemma split_snoc:
  "str_split c (s @ [x]) =
     (if x = c then str_split c s @ [[]]
      else butlast (str_split c s) @ [last (str_split c s) @ [x]])"
proof (induction s)
  case Nil
  show ?case by simp
next
  case (Cons y s)
  obtain h t where ht: "str_split c s = h # t"
    using split_nonempty [of c s] by (cases "str_split c s") auto
  obtain h' t' where ht': "str_split c (s @ [x]) = h' # t'"
    using split_nonempty [of c "s @ [x]"] by (cases "str_split c (s @ [x])") auto
  from Cons ht ht' show ?case
    by (auto split: if_splits)
qed

lemma kept_snoc_space:
  assumes "isspace x"
  shows "stripped_nonblank (str_split NL (s @ [x])) = stripped_nonblank (str_split NL s)"
proof (cases "x = NL")
  case True
  then show ?thesis
    by (simp add: split_snoc stripped_nonblank_def nonblank_def strip_Nil)
next
  case False
  let ?L = "str_split NL s"
  have L: "?L = butlast ?L @ [last ?L]"
    using split_nonempty [of NL s] by simp
  have "stripped_nonblank (butlast ?L @ [last ?L @ [x]])
      = stripped_nonblank (butlast ?L @ [last ?L])"
    using assms by (simp add: stripped_nonblank_def nonblank_def strip_snoc_space)
  with False L show ?thesis by (simp add: split_snoc)
qed

lemma kept_rstrip:
  "stripped_nonblank (str_split NL (rev (dropWhile isspace (rev s))))
     = stripped_nonblank (str_split NL s)"
proof (induction s rule: rev_induct)
  case Nil
  show ?case by simp
next
  case (snoc x s)
  show ?case
  proof (cases "isspace x")
    case True
    with snoc kept_snoc_space [OF True, of s] show ?thesis by simp
  next
    case False
    then show ?thesis by simp
  qed
qed

lemma kept_strip:
  "stripped_nonblank (str_split NL (str_strip s)) = stripped_nonblank (str_split NL s)"
  unfolding str_strip_def by (simp only: kept_rstrip kept_lstrip)

lemma split_no_sep: "c \<notin> set l \<Longrightarrow> str_split c l = [l]"
  by (induction l) auto

lemma split_append_sep: "c \<notin> set l \<Longrightarrow> str_split c (l @ c # r) = l # str_split c r"
  by (induction l) auto

lemma split_join:
  "b \<noteq> [] \<Longrightarrow> \<forall>l \<in> set b. NL \<notin> set l \<Longrightarrow> str_split NL (join_lines b) = b"
proof (induction b rule: join_lines.induct)
  case 1
  then show ?case by simp
next
  case (2 l)
  then show ?case by (simp add: split_no_sep)
next
  case (3 l m ls)
  then show ?case by (simp add: split_append_sep del: str_split.simps)
qed

lemma split_lines_free: "l \<in> set (str_split c s) \<Longrightarrow> c \<notin> set l"
proof (induction s arbitrary: l)
  case Nil
  then show ?case by simp
next
  case (Cons x s)
  obtain h t where ht: "str_split c s = h # t"
    using split_nonempty [of c s] by (cases "str_split c s") auto
  show ?case
  proof (cases "x = c")
    case True
    with Cons show ?thesis by auto
  next
    case False
    with Cons.prems ht have "l = x # h \<or> l \<in> set t" by simp
    with Cons.IH [of h] Cons.IH [of l] ht False show ?thesis by auto
  qed
qed

lemma kept_concat: "stripped_nonblank (concat xss) = concat (map stripped_nonblank xss)"
  by (induction xss) (simp_all add: stripped_nonblank_def)

lemma concat_map_filter_skip:
  "(\<And>x. \<not> P x \<Longrightarrow> f x = []) \<Longrightarrow> concat (map f (filter P xs)) = concat (map f xs)"
  by (induction xs) simp_all

lemma kept_blank: "\<not> nonblank p \<Longrightarrow> stripped_nonblank (str_split NL p) = []"
proof -
  assume "\<not> nonblank p"
  then have "str_strip p = []" by (simp add: nonblank_def)
  with kept_strip [of p] show ?thesis
    by (simp add: stripped_nonblank_def nonblank_def strip_Nil)
qed

lemma kept_of_sent:
  assumes "[] \<notin> set blocks" and "\<forall>b \<in> set blocks. \<forall>l \<in> set b. NL \<notin> set l"
  shows "stripped_nonblank (concat (map (str_split NL)
            (map str_strip (filter nonblank (map join_lines blocks)))))
         = stripped_nonblank (concat blocks)"
proof -
  let ?parts = "map join_lines blocks"
  have "stripped_nonblank (concat (map (str_split NL) (map str_strip (filter nonblank ?parts))))
      = concat (map (\<lambda>p. stripped_nonblank (str_split NL (str_strip p))) (filter nonblank ?parts))"
    by (simp add: kept_concat comp_def)
  also have "\<dots> = concat (map (\<lambda>p. stripped_nonblank (str_split NL p)) (filter nonblank ?parts))"
    by (simp only: kept_strip)
  also have "\<dots> = concat (map (\<lambda>p. stripped_nonblank (str_split NL p)) ?parts)"
    by (rule concat_map_filter_skip) (rule kept_blank)
  also have "\<dots> = concat (map (\<lambda>b. stripped_nonblank (str_split NL (join_lines b))) blocks)"
    by (simp add: comp_def)
  also have "\<dots> = concat (map stripped_nonblank blocks)"
  proof -
    have "stripped_nonblank (str_split NL (join_lines b)) = stripped_nonblank b"
      if "b \<in> set blocks" for b
    proof -
      from that assms have "b \<noteq> []" "\<forall>l \<in> set b. NL \<notin> set l" by auto
      then have "str_split NL (join_lines b) = b" by (rule split_join)
      then show ?thesis by (rule arg_cong)
    qed
    then show ?thesis by (metis (mono_tags, lifting) map_eq_conv)
  qed
  also have "\<dots> = stripped_nonblank (concat blocks)"
    by (simp only: kept_concat)
  finally show ?thesis .
qed

lemma strip_id: "s \<noteq> [] \<Longrightarrow> \<not> isspace (hd s) \<Longrightarrow> \<not> isspace (last s) \<Longrightarrow> str_strip s = s"
proof -
  assume s: "s \<noteq> []" "\<not> isspace (hd s)" "\<not> isspace (last s)"
  then have 1: "dropWhile isspace s = s" by (cases s) simp_all
  from s have "rev s \<noteq> []" "\<not> isspace (hd (rev s))" by (simp_all add: hd_rev)
  then have 2: "dropWhile isspace (rev s) = rev s" by (cases "rev s") simp_all
  show ?thesis unfolding str_strip_def 1 2 by simp
qed

lemma long_line_facts:
  "length long_line = 4095" "NL \<notin> set long_line" "str_strip long_line = long_line"
  "nonblank long_line"
proof -
  show l: "length long_line = 4095" by (simp add: long_line_def)
  show "NL \<notin> set long_line" by (simp add: long_line_def NL_def)
  have ne: "long_line \<noteq> []" using l by auto
  have "hd long_line = CHR ''b''" "last long_line = CHR ''b''"
    by (simp_all add: long_line_def)
  then show s: "str_strip long_line = long_line"
    using ne by (intro strip_id) (simp_all add: isspace_def)
  show "nonblank long_line" using ne by (simp add: nonblank_def s)
qed

lemma indented_split: "str_split NL indented_text = [''  a'', long_line]"
proof -
  have "NL \<notin> set ''  a''" by (simp add: NL_def)
  then have "str_split NL (''  a'' @ NL # long_line) = ''  a'' # str_split NL long_line"
    by (rule split_append_sep)
  then show ?thesis
    by (simp only: indented_text_def split_no_sep [OF long_line_facts(2)])
qed

lemma indented_sent: "send_long_message indented_text = [''a'', long_line]"
proof -
  have "MAX_LENGTH < length indented_text"
    by (simp add: indented_text_def long_line_facts MAX_LENGTH_def)
  then have "send_long_message indented_text
      = map str_strip (filter (\<lambda>part. str_strip part \<noteq> []) (pack_lines [] [] [''  a'', long_line]))"
    by (simp add: send_long_message_def indented_split)
  moreover have "pack_lines [] [] [''  a'', long_line] = [NL # ''  a'', long_line]"
    by (simp add: MAX_LENGTH_def long_line_facts)
  moreover have "str_strip (NL # ''  a'') = ''a''"
    by (simp add: str_strip_def isspace_def NL_def)
  ultimately show ?thesis
    using long_line_facts(3,4) by (simp add: nonblank_def)
qed

lemma nonblank_eq: "(\<lambda>part. str_strip part \<noteq> []) = nonblank"
  by (simp add: nonblank_def fun_eq_iff)

lemma long_message_blocks:
  assumes "MAX_LENGTH < length text"
  shows "\<exists>blocks. concat blocks = [] # str_split NL text \<and> [] \<notin> set blocks \<and>
           send_long_message text = map str_strip (filter nonblank (map join_lines blocks))"
proof -
  from pack_lines_blocks [of "[[]]" "str_split NL text" "[]"]
  obtain blocks where b: "concat blocks = [[]] @ str_split NL text" "[] \<notin> set blocks"
    "pack_lines [] (join_lines [[]]) (str_split NL text) = [] @ map join_lines blocks"
    by blast
  from assms b(3) have "send_long_message text = map str_strip (filter nonblank (map join_lines blocks))"
    by (simp add: send_long_message_def nonblank_eq)
  with b(1,2) show ?thesis by auto
qed

lemma long_message_chunks:
  assumes "MAX_LENGTH < length text" and "\<forall>l \<in> set (str_split NL text). length l \<le> MAX_LENGTH"
    and "c \<in> set (send_long_message text)"
  shows "length c \<le> MAX_LENGTH \<and> (\<exists>x \<in> set c. \<not> isspace x)"
proof -
  have parts: "\<forall>p \<in> set (pack_lines [] [] (str_split NL text)). length p \<le> MAX_LENGTH"
    using assms(2) by (intro pack_lines_lengths) simp_all
  from assms(1,3) obtain p where p: "p \<in> set (pack_lines [] [] (str_split NL text))"
    "str_strip p \<noteq> []" "c = str_strip p"
    by (auto simp: send_long_message_def)
  from parts p(1) have "length p \<le> MAX_LENGTH" by blast
  with length_strip_le [of p] p(3) have "length c \<le> MAX_LENGTH" by simp
  moreover from strip_has_char [OF p(2)] p(3) have "\<exists>x \<in> set c. \<not> isspace x" by simp
  ultimately show ?thesis ..
qed

lemma long_message_kept:
  assumes "MAX_LENGTH < length text"
  shows "stripped_nonblank (concat (map (str_split NL) (send_long_message text)))
           = stripped_nonblank (str_split NL text)"
proof -
  from long_message_blocks [OF assms] obtain blocks
    where b: "concat blocks = [] # str_split NL text" "[] \<notin> set blocks"
      "send_long_message text = map str_strip (filter nonblank (map join_lines blocks))"
    by blast
  have "NL \<notin> set l" if "b \<in> set blocks" "l \<in> set b" for b l
  proof -
    from that have "l \<in> set (concat blocks)" by auto
    then have "l = [] \<or> l \<in> set (str_split NL text)" by (simp add: b(1))
    then show ?thesis using split_lines_free [of l NL "text"] by auto
  qed
  then have "\<forall>b \<in> set blocks. \<forall>l \<in> set b. NL \<notin> set l" by blast
  from kept_of_sent [OF b(2) this]
  have "stripped_nonblank (concat (map (str_split NL) (send_long_message text)))
      = stripped_nonblank ([] # str_split NL text)"
    by (simp only: b(1,3))
  then show ?thesis by (simp add: stripped_nonblank_def nonblank_def strip_Nil)
qed

text \<open>
  C5, as the code has it. A text within the limit is sent as it is, in one message. A
  longer text whose lines all fit the limit is sent in chunks of at most 4096
  characters, none empty or of white space only; the chunks are, in order, the
  non-blank ones among the blocks of consecutive lines (of the lines of the text after
  an empty first line) joined by newlines, each stripped of the white space around it,
  so no line is cut; and the non-blank lines of the chunks are those of the text, in
  order, up to the white space around each line.
\<close>

theorem long_message_split:
  "(length text \<le> MAX_LENGTH \<longrightarrow> send_long_message text = [text]) \<and>
   (MAX_LENGTH < length text \<and> (\<forall>l \<in> set (str_split NL text). length l \<le> MAX_LENGTH) \<longrightarrow>
      (\<forall>c \<in> set (send_long_message text). length c \<le> MAX_LENGTH \<and> (\<exists>x \<in> set c. \<not> isspace x)) \<and>
      (\<exists>blocks. concat blocks = [] # str_split NL text \<and> [] \<notin> set blocks \<and>
          send_long_message text = map str_strip (filter nonblank (map join_lines blocks))) \<and>
      stripped_nonblank (concat (map (str_split NL) (send_long_message text)))
        = stripped_nonblank (str_split NL text))"
proof -
  have "length text \<le> MAX_LENGTH \<longrightarrow> send_long_message text = [text]"
    by (simp add: send_long_message_def)
  then show ?thesis
    using long_message_blocks [of "text"] long_message_chunks [of "text"] long_message_kept [of "text"]
    by blast
qed

theorem long_message_split_witness:
  "send_long_message ''abc'' = [''abc''] \<and>
   list_all (\<lambda>c. length c \<le> MAX_LENGTH) (send_long_message indented_text) \<and>
   stripped_nonblank (concat (map (str_split NL) (send_long_message indented_text)))
     = stripped_nonblank (str_split NL indented_text)"
proof -
  have s: "length ''abc'' \<le> MAX_LENGTH" by (simp add: MAX_LENGTH_def)
  have l: "MAX_LENGTH < length indented_text"
    by (simp add: indented_text_def long_line_facts MAX_LENGTH_def)
  have f: "\<forall>l \<in> set (str_split NL indented_text). length l \<le> MAX_LENGTH"
    by (simp add: indented_split long_line_facts MAX_LENGTH_def)
  from long_message_split [of "''abc''", THEN conjunct1] s
  have 1: "send_long_message ''abc'' = [''abc'']" by blast
  from long_message_split [of indented_text, THEN conjunct2] l f
  have 2: "(\<forall>c \<in> set (send_long_message indented_text). length c \<le> MAX_LENGTH \<and>
              (\<exists>x \<in> set c. \<not> isspace x)) \<and>
      (\<exists>blocks. concat blocks = [] # str_split NL indented_text \<and> [] \<notin> set blocks \<and>
          send_long_message indented_text = map str_strip (filter nonblank (map join_lines blocks))) \<and>
      stripped_nonblank (concat (map (str_split NL) (send_long_message indented_text)))
        = stripped_nonblank (str_split NL indented_text)"
    by blast
  then have "list_all (\<lambda>c. length c \<le> MAX_LENGTH) (send_long_message indented_text)"
    unfolding list_all_iff by blast
  with 1 2 show ?thesis by blast
qed

text \<open>
  C5 as stated fails: a chunk is stripped, so the indented first line of a chunk is
  not sent as it was written.
\<close>

theorem indented_line_is_changed:
  "MAX_LENGTH < length indented_text \<and>
   list_all (\<lambda>l. length l \<le> MAX_LENGTH) (str_split NL indented_text) \<and>
   filter nonblank (concat (map (str_split NL) (send_long_message indented_text)))
     \<noteq> filter nonblank (str_split NL indented_text)"
proof -
  have "str_split NL ''a'' = [''a'']" by (simp add: NL_def)
  moreover have "nonblank ''a''" "nonblank ''  a''"
    by (simp_all add: nonblank_def str_strip_def isspace_def)
  moreover have "MAX_LENGTH < length indented_text"
    by (simp add: indented_text_def long_line_facts MAX_LENGTH_def)
  moreover have "length ''  a'' \<le> MAX_LENGTH" "length long_line \<le> MAX_LENGTH"
    by (simp_all add: long_line_facts MAX_LENGTH_def)
  ultimately show ?thesis
    by (simp add: indented_sent indented_split split_no_sep long_line_facts
        del: str_split.simps)
qed

end
